theory Spec2Isabelle
  imports Complex_Main
begin

section \<open>Data model (types.ts)\<close>

text \<open>
  JavaScript numbers are modelled as real numbers: the non-finite values (NaN, the
  infinities) and rounding are outside the model. Strings are character lists.
\<close>

datatype MaskType = Manual | Ai

record MaskRect =
  mask_id :: string
  mask_x :: real
  mask_y :: real
  mask_w :: real
  mask_h :: real
  mask_type :: MaskType
  mask_label :: "string option"

datatype FileType = Image | ThreeD | Table

datatype ToolMode = PAN | DRAW

record AiDetectionResult =
  box_2d :: "real \<times> real \<times> real \<times> real"
  label :: string

section \<open>Identifiers: \<open>Date.now().toString()\<close> and the detection template string\<close>

text \<open>
  \<open>Date.now()\<close> is a count of milliseconds, modelled as a natural number that the
  environment supplies; \<open>toString\<close> writes it in decimal. The text of
  \<open>Math.random()\<close> is supplied by the environment as a string.
\<close>

definition digit :: "nat \<Rightarrow> char" where
  "digit d = ''0123456789'' ! d"

fun toString :: "nat \<Rightarrow> string" where
  "toString n = (if n < 10 then [digit n] else toString (n div 10) @ [digit (n mod 10)])"

declare toString.simps [simp del]

definition aiId :: "nat \<times> string \<Rightarrow> string" where
  "aiId stamp = ''ai-'' @ toString (fst stamp) @ ''-'' @ snd stamp"

section \<open>Detection reconciler (App.tsx, handleAutoDetect)\<close>

text \<open>
  The body of \<open>results.map(r => ...)\<close>: a box is \<open>[ymin, xmin, ymax, xmax]\<close>, and each
  of the four derived components is divided by 1000 when it is itself greater than 1.
  The stamp is the pair of \<open>Date.now()\<close> and the text of \<open>Math.random()\<close> read for
  this element.
\<close>

definition detectedMask :: "nat \<times> string \<Rightarrow> AiDetectionResult \<Rightarrow> MaskRect" where
  "detectedMask stamp r =
     (case box_2d r of (b0, b1, b2, b3) \<Rightarrow>
        \<lparr> mask_id = aiId stamp,
          mask_x = (if b1 > 1 then b1 / 1000 else b1),
          mask_y = (if b0 > 1 then b0 / 1000 else b0),
          mask_w = (if (b3 - b1) > 1 then (b3 - b1) / 1000 else (b3 - b1)),
          mask_h = (if (b2 - b0) > 1 then (b2 - b0) / 1000 else (b2 - b0)),
          mask_type = Ai,
          mask_label = Some (label r) \<rparr>)"

section \<open>Raster images and the 2D canvas\<close>

text \<open>
  The canvas is the browser's, not the repository's. It is modelled as a grid of pixels
  with premultiplied RGBA channels in the unit interval (8-bit quantisation is left
  out). Pixel \<open>(i, j)\<close> is the unit square with corners \<open>(i, j)\<close> and
  \<open>(i + 1, j + 1)\<close>. \<open>fillRect\<close> paints source-over with the fraction of the pixel's
  square that the rectangle covers, which leaves an uncovered pixel as it was and gives
  a wholly covered pixel the fill colour when that colour is opaque. A rectangle of
  negative width or height covers the same area as its normalised form.
\<close>

type_synonym rgba = "real \<times> real \<times> real \<times> real"

definition black :: rgba where
  "black = (0, 0, 0, 1)"

definition transparent :: rgba where
  "transparent = (0, 0, 0, 0)"

record HTMLImage =
  naturalWidth :: nat
  naturalHeight :: nat
  imageData :: "nat \<Rightarrow> nat \<Rightarrow> rgba"

record Canvas =
  canvas_width :: nat
  canvas_height :: nat
  canvas_data :: "nat \<Rightarrow> nat \<Rightarrow> rgba"

definition createCanvas :: "nat \<Rightarrow> nat \<Rightarrow> Canvas" where
  "createCanvas cw ch = \<lparr>canvas_width = cw, canvas_height = ch, canvas_data = (\<lambda>i j. transparent)\<rparr>"

definition sourceOver :: "real \<Rightarrow> rgba \<Rightarrow> rgba \<Rightarrow> rgba" where
  "sourceOver c src dst =
     (case src of (sr, sg, sb, sa) \<Rightarrow> case dst of (dr, dg, db, da) \<Rightarrow>
        (sr * c + dr * (1 - sa * c), sg * c + dg * (1 - sa * c),
         sb * c + db * (1 - sa * c), sa * c + da * (1 - sa * c)))"

definition drawImage :: "HTMLImage \<Rightarrow> Canvas \<Rightarrow> Canvas" where
  "drawImage im cv =
     cv\<lparr>canvas_data := (\<lambda>i j.
        if i < canvas_width cv \<and> j < canvas_height cv \<and> i < naturalWidth im \<and> j < naturalHeight im
        then sourceOver 1 (imageData im i j) (canvas_data cv i j)
        else canvas_data cv i j)\<rparr>"

definition overlap :: "real \<Rightarrow> real \<Rightarrow> nat \<Rightarrow> real" where
  "overlap a len i = max 0 (min (max a (a + len)) (real i + 1) - max (min a (a + len)) (real i))"

definition coverage :: "real \<Rightarrow> real \<Rightarrow> real \<Rightarrow> real \<Rightarrow> nat \<Rightarrow> nat \<Rightarrow> real" where
  "coverage rx ry rw rh i j = overlap rx rw i * overlap ry rh j"

definition fillRect :: "rgba \<Rightarrow> real \<Rightarrow> real \<Rightarrow> real \<Rightarrow> real \<Rightarrow> Canvas \<Rightarrow> Canvas" where
  "fillRect fillStyle rx ry rw rh cv =
     cv\<lparr>canvas_data := (\<lambda>i j.
        if i < canvas_width cv \<and> j < canvas_height cv
        then sourceOver (coverage rx ry rw rh i j) fillStyle (canvas_data cv i j)
        else canvas_data cv i j)\<rparr>"

text \<open>
  \<open>masks.forEach(mask => ctx.fillRect(mask.x * W, mask.y * H, mask.w * W, mask.h * H))\<close>
  with \<open>ctx.fillStyle = '#000000'\<close>, in collection order.
\<close>

fun fillMasks :: "nat \<Rightarrow> nat \<Rightarrow> MaskRect list \<Rightarrow> Canvas \<Rightarrow> Canvas" where
  "fillMasks nw nh [] cv = cv"
| "fillMasks nw nh (m # rest) cv =
     fillMasks nw nh rest
       (fillRect black (mask_x m * real nw) (mask_y m * real nh)
          (mask_w m * real nw) (mask_h m * real nh) cv)"

text \<open>
  The position of a pixel relative to a mask's pixel-space box, stated on the geometry
  and not on the coverage: the pixel's square lies within the box, or shares no area
  with it.
\<close>

definition boxLo :: "real \<Rightarrow> real \<Rightarrow> real" where
  "boxLo a len = min a (a + len)"

definition boxHi :: "real \<Rightarrow> real \<Rightarrow> real" where
  "boxHi a len = max a (a + len)"

definition pixelInside :: "nat \<Rightarrow> nat \<Rightarrow> MaskRect \<Rightarrow> nat \<Rightarrow> nat \<Rightarrow> bool" where
  "pixelInside nw nh m i j =
     (boxLo (mask_x m * real nw) (mask_w m * real nw) \<le> real i
      \<and> real i + 1 \<le> boxHi (mask_x m * real nw) (mask_w m * real nw)
      \<and> boxLo (mask_y m * real nh) (mask_h m * real nh) \<le> real j
      \<and> real j + 1 \<le> boxHi (mask_y m * real nh) (mask_h m * real nh))"

definition pixelOutside :: "nat \<Rightarrow> nat \<Rightarrow> MaskRect \<Rightarrow> nat \<Rightarrow> nat \<Rightarrow> bool" where
  "pixelOutside nw nh m i j =
     (real i + 1 \<le> boxLo (mask_x m * real nw) (mask_w m * real nw)
      \<or> boxHi (mask_x m * real nw) (mask_w m * real nw) \<le> real i
      \<or> real j + 1 \<le> boxLo (mask_y m * real nh) (mask_h m * real nh)
      \<or> boxHi (mask_y m * real nh) (mask_h m * real nh) \<le> real j)"

section \<open>Interaction state machine (CanvasEditor.tsx)\<close>

record DragRef =
  isDown :: bool
  startX :: real
  startY :: real
  scrollLeft :: real
  scrollTop :: real

text \<open>
  \<open>currentRect\<close> is typed \<open>Partial<MaskRect> | null\<close>. The only objects ever stored in
  it carry \<open>x\<close>, \<open>y\<close>, \<open>w\<close> and \<open>h\<close> (handleMouseDown stores all four, handleMouseMove
  spreads the previous object), so the four fields are modelled as present and the
  \<open>undefined\<close> guard of handleMouseUp has no branch here.
\<close>

record DrawRect =
  rect_x :: real
  rect_y :: real
  rect_w :: real
  rect_h :: real

record Container =
  cont_scrollLeft :: real
  cont_scrollTop :: real

record Editor =
  loadedImage :: "HTMLImage option"
  dragRef :: DragRef
  currentRect :: "DrawRect option"
  containerRef :: "Container option"
  canvasRef :: bool

text \<open>
  A mouse event with the bounding box of the element it was delivered to. A box of zero
  width or height makes the quotient of getNormalizedPos non-finite in JavaScript; such
  boxes are outside the model.
\<close>

record MouseEvent =
  clientX :: real
  clientY :: real
  rect_left :: real
  rect_top :: real
  rect_width :: real
  rect_height :: real

definition getNormalizedPos :: "MouseEvent \<Rightarrow> real \<times> real" where
  "getNormalizedPos e =
     ((clientX e - rect_left e) / rect_width e, (clientY e - rect_top e) / rect_height e)"

definition handleMouseDown :: "ToolMode \<Rightarrow> MouseEvent \<Rightarrow> Editor \<Rightarrow> Editor" where
  "handleMouseDown mode e s =
     (if loadedImage s = None then s
      else
        let d = (dragRef s)\<lparr>isDown := True, startX := clientX e, startY := clientY e\<rparr> in
        (case (mode, containerRef s) of
           (PAN, Some c) \<Rightarrow>
             s\<lparr>dragRef := d\<lparr>scrollLeft := cont_scrollLeft c, scrollTop := cont_scrollTop c\<rparr>\<rparr>
         | (PAN, None) \<Rightarrow> s\<lparr>dragRef := d\<rparr>
         | (DRAW, _) \<Rightarrow>
             s\<lparr>dragRef := d,
               currentRect := Some \<lparr>rect_x = fst (getNormalizedPos e),
                                     rect_y = snd (getNormalizedPos e), rect_w = 0, rect_h = 0\<rparr>\<rparr>))"


text \<open>
  handleMouseUp. \<open>now\<close> is the value of \<open>Date.now()\<close>; \<open>prev\<close> is the collection that
  the updater passed to \<open>setMasks\<close> receives, and the second component of the result is
  what the updater returns (\<open>prev\<close> itself when \<open>setMasks\<close> is not called).
\<close>

definition newMask :: "nat \<Rightarrow> real \<Rightarrow> real \<Rightarrow> real \<Rightarrow> real \<Rightarrow> MaskRect" where
  "newMask now vx vy vw vh =
     \<lparr>mask_id = toString now, mask_x = vx, mask_y = vy, mask_w = vw, mask_h = vh,
      mask_type = Manual, mask_label = None\<rparr>"

definition handleMouseUp ::
    "ToolMode \<Rightarrow> nat \<Rightarrow> Editor \<Rightarrow> MaskRect list \<Rightarrow> Editor \<times> MaskRect list" where
  "handleMouseUp mode now s prev =
     (let s1 = s\<lparr>dragRef := (dragRef s)\<lparr>isDown := False\<rparr>\<rparr> in
      (case (mode, currentRect s) of
         (DRAW, Some r) \<Rightarrow>
           (let vx = (if rect_w r < 0 then rect_x r + rect_w r else rect_x r);
                vw = (if rect_w r < 0 then \<bar>rect_w r\<bar> else rect_w r);
                vy = (if rect_h r < 0 then rect_y r + rect_h r else rect_y r);
                vh = (if rect_h r < 0 then \<bar>rect_h r\<bar> else rect_h r)
            in (s1\<lparr>currentRect := None\<rparr>,
                if vw > 0.005 \<and> vh > 0.005 then prev @ [newMask now vx vy vw vh] else prev))
       | _ \<Rightarrow> (s1, prev)))"





text \<open>
  The export effect of CanvasEditor (the \<open>useEffect\<close> on \<open>exportTrigger\<close>). \<open>ctx\<close> tells
  whether \<open>getContext('2d')\<close> returned a context, \<open>now\<close> is \<open>Date.now()\<close>. The PNG data
  URL handed to the download link is modelled by the canvas it encodes (PNG is lossless).
  The result is the download that \<open>link.click()\<close> delivers, if any. MainViewer, which
  stands between App and CanvasEditor, is taken to hand \<open>exportTrigger\<close> and the masks
  of the current file on as they are.
\<close>

record Download =
  download :: string
  href :: Canvas

definition exportEffect :: "nat \<Rightarrow> bool \<Rightarrow> nat \<Rightarrow> Editor \<Rightarrow> MaskRect list \<Rightarrow> Download option" where
  "exportEffect trigger ctx now s masks =
     (case loadedImage s of
        None \<Rightarrow> None
      | Some im \<Rightarrow>
          if trigger > 0 \<and> canvasRef s then
            (if ctx then
               Some \<lparr>download = ''desensitized_'' @ toString now @ ''.png'',
                     href = fillMasks (naturalWidth im) (naturalHeight im) masks
                              (drawImage im (createCanvas (naturalWidth im) (naturalHeight im)))\<rparr>
             else None)
          else None)"

section \<open>Project state and the mask store (App.tsx)\<close>

text \<open>
  A blob is either the bytes of a loaded file or the PNG encoding of a canvas. A project
  file keeps the fields the masking and export code reads; the type of the \<open>masks\<close>
  field is a parameter, so that the same record serves the value model (a list of
  rectangles) and the store model (a reference to an array).
\<close>

datatype Blob = FileBlob string | PngBlob Canvas

record 'm ProjectFile =
  name :: string
  blob :: Blob
  url :: string
  ftype :: FileType
  masks :: 'm

record App =
  projectDesc :: string
  files :: "MaskRect list ProjectFile list"
  currentFileIndex :: nat
  exportTrigger :: nat

definition handleProjectStart :: "string \<Rightarrow> MaskRect list ProjectFile list \<Rightarrow> App" where
  "handleProjectStart description loadedFiles =
     \<lparr>projectDesc = description, files = loadedFiles, currentFileIndex = 0, exportTrigger = 0\<rparr>"

text \<open>
  handleMaskChange takes an array or an updater function. An index outside the list
  makes \<open>current\<close> the empty object, whose \<open>type\<close> is not \<open>'image'\<close>, so the state is
  returned as it was.
\<close>

datatype MaskChange = NewMasks "MaskRect list" | Updater "MaskRect list \<Rightarrow> MaskRect list"

definition handleMaskChange :: "MaskChange \<Rightarrow> App \<Rightarrow> App" where
  "handleMaskChange newMasksOrFn st =
     (let k = currentFileIndex st in
      if k < length (files st) \<and> ftype (files st ! k) = Image then
        st\<lparr>files := (files st)[k := (files st ! k)\<lparr>masks :=
              (case newMasksOrFn of
                 Updater fn \<Rightarrow> fn (masks (files st ! k))
               | NewMasks ms \<Rightarrow> ms)\<rparr>]\<rparr>
      else st)"

text \<open>
  handleApplyMasksToAll. \<open>confirmed\<close> is the answer of \<open>window.confirm\<close>. Reading
  \<open>files[currentFileIndex].masks\<close> with the index outside the list throws a TypeError,
  which is the result \<open>None\<close>.
\<close>

definition handleApplyMasksToAll :: "bool \<Rightarrow> App \<Rightarrow> App option" where
  "handleApplyMasksToAll confirmed st =
     (if currentFileIndex st < length (files st) then
        (let sourceMasks = masks (files st ! currentFileIndex st) in
         if length sourceMasks = 0 then Some st
         else if \<not> confirmed then Some st
         else Some (st\<lparr>files := map (\<lambda>f. if ftype f = Image then f\<lparr>masks := sourceMasks\<rparr> else f)
                                   (files st)\<rparr>))
      else None)"

text \<open>
  handleAutoDetect. The environment decides whether the API key is present, whether the
  file can be fetched and what the detector answers; \<open>stamp k\<close> is the pair of
  \<open>Date.now()\<close> and the text of \<open>Math.random()\<close> read for the \<open>k\<close>-th result. Every failure
  leaves the state as it was (an index outside the list rejects the promise).
\<close>

datatype Detection = NoApiKey | FetchFailed | DetectorFailed | Detected "AiDetectionResult list"

definition newMasks :: "(nat \<Rightarrow> nat \<times> string) \<Rightarrow> AiDetectionResult list \<Rightarrow> MaskRect list" where
  "newMasks stamp results = map (\<lambda>k. detectedMask (stamp k) (results ! k)) [0..<length results]"

definition handleAutoDetect :: "Detection \<Rightarrow> (nat \<Rightarrow> nat \<times> string) \<Rightarrow> App \<Rightarrow> App" where
  "handleAutoDetect detection stamp st =
     (if length (files st) = 0 then st
      else if \<not> currentFileIndex st < length (files st) then st
      else if ftype (files st ! currentFileIndex st) \<noteq> Image then st
      else
        (case detection of
           Detected results \<Rightarrow>
             if length results = 0 then st
             else handleMaskChange (Updater (\<lambda>prev. prev @ newMasks stamp results)) st
         | _ \<Rightarrow> st))"

section \<open>Export pipeline (App.tsx)\<close>

text \<open>
  What the browser decides during an export: \<open>decode\<close> gives the image that \<open>onload\<close>
  delivers for a URL (\<open>None\<close> is \<open>onerror\<close>), \<open>context2d\<close> whether \<open>getContext('2d')\<close>
  succeeds for a canvas of the given size, \<open>encodes\<close> whether \<open>toBlob\<close> yields a blob,
  \<open>generates\<close> whether \<open>zip.generateAsync\<close> succeeds.
\<close>

record ExportEnv =
  decode :: "string \<Rightarrow> HTMLImage option"
  context2d :: "nat \<Rightarrow> nat \<Rightarrow> bool"
  encodes :: "Canvas \<Rightarrow> bool"
  generates :: bool

definition processImageForExport :: "ExportEnv \<Rightarrow> MaskRect list ProjectFile \<Rightarrow> string + Blob" where
  "processImageForExport env file =
     (if ftype file \<noteq> Image then Inr (blob file)
      else
        (case decode env (url file) of
           None \<Rightarrow> Inl ''Image load error''
         | Some im \<Rightarrow>
             if \<not> context2d env (naturalWidth im) (naturalHeight im) then Inl ''Canvas context error''
             else
               (let cv = fillMasks (naturalWidth im) (naturalHeight im) (masks file)
                           (drawImage im (createCanvas (naturalWidth im) (naturalHeight im)))
                in if encodes env cv then Inr (PngBlob cv) else Inl ''Blob generation failed'')))"

text \<open>
  \<open>file.name.replace(/\.[^/.]+$/, "")\<close>: the leftmost dot that is followed, up to the end
  of the string, by one or more characters other than \<open>/\<close> and \<open>.\<close> is removed together
  with what follows it.
\<close>

fun removeExtension :: "string \<Rightarrow> string" where
  "removeExtension [] = []"
| "removeExtension (c # cs) =
     (if c = CHR ''.'' \<and> cs \<noteq> [] \<and> list_all (\<lambda>d. d \<noteq> CHR ''/'' \<and> d \<noteq> CHR ''.'') cs
      then [] else c # removeExtension cs)"

definition exportName :: "MaskRect list ProjectFile \<Rightarrow> string" where
  "exportName file =
     (if ftype file = Image then removeExtension (name file) @ ''.png'' else name file)"

text \<open>
  The archive folder maps entry names to entries; \<open>folder.file(name, data)\<close> adds the
  entry or replaces the one of that name. The callbacks of \<open>files.map\<close> are run here in
  list order; the order in which the promises settle is the browser's and decides only
  which of two entries of one name is written last.
\<close>

datatype Entry = TextEntry string | BlobEntry Blob

type_synonym Folder = "string \<Rightarrow> Entry option"

fun addExports :: "ExportEnv \<Rightarrow> MaskRect list ProjectFile list \<Rightarrow> Folder \<Rightarrow> Folder" where
  "addExports env [] folder = folder"
| "addExports env (file # rest) folder =
     addExports env rest
       (case processImageForExport env file of
          Inr processedBlob \<Rightarrow> folder(exportName file \<mapsto> BlobEntry processedBlob)
        | Inl err \<Rightarrow> folder)"

datatype BatchResult = NoExport | SingleImageExport | Saved Folder | ExportFailed

definition handleBatchExport :: "ExportEnv \<Rightarrow> App \<Rightarrow> App \<times> BatchResult" where
  "handleBatchExport env st =
     (if length (files st) = 0 then (st, NoExport)
      else if length (files st) = 1 \<and> ftype (files st ! 0) = Image
      then (st\<lparr>exportTrigger := exportTrigger st + 1\<rparr>, SingleImageExport)
      else
        (let folder = addExports env (files st)
                        (if projectDesc st \<noteq> [] then [''requirements.txt'' \<mapsto> TextEntry (projectDesc st)]
                         else Map.empty)
         in if generates env then (st, Saved folder) else (st, ExportFailed)))"

section \<open>Sequences of mask-store operations\<close>

text \<open>
  What the user can do to the mask store of a running project: select a file
  (\<open>onFileSelect\<close>), release the pointer over the canvas (the editor calls \<open>setMasks\<close>,
  which is handleMaskChange, with the updater of handleMouseUp), run the detection, copy
  the masks to all images, clear the masks (\<open>handleMaskChange([])\<close>). A TypeError thrown
  by handleApplyMasksToAll leaves the state as it was.
\<close>

datatype Action =
    SelectFile nat
  | PointerUp ToolMode nat Editor
  | AutoDetect Detection "nat \<Rightarrow> nat \<times> string"
  | ApplyMasksToAll bool
  | ClearMasks

fun applyAction :: "Action \<Rightarrow> App \<Rightarrow> App" where
  "applyAction (SelectFile k) st = st\<lparr>currentFileIndex := k\<rparr>"
| "applyAction (PointerUp mode now ed) st =
     handleMaskChange (Updater (\<lambda>prev. snd (handleMouseUp mode now ed prev))) st"
| "applyAction (AutoDetect detection stamp) st = handleAutoDetect detection stamp st"
| "applyAction (ApplyMasksToAll confirmed) st =
     (case handleApplyMasksToAll confirmed st of Some st' \<Rightarrow> st' | None \<Rightarrow> st)"
| "applyAction ClearMasks st = handleMaskChange (NewMasks []) st"

definition runActions :: "App \<Rightarrow> Action list \<Rightarrow> App" where
  "runActions st acts = foldl (\<lambda>s a. applyAction a s) st acts"

text \<open>
  The identifiers that an action creates in a given state: those of the rectangle that
  handleMouseUp builds, and those of the rectangles that handleAutoDetect builds when it
  gets as far as the detector's answer.
\<close>

fun idsCreated :: "App \<Rightarrow> Action \<Rightarrow> string list" where
  "idsCreated st (PointerUp mode now ed) = map mask_id (snd (handleMouseUp mode now ed []))"
| "idsCreated st (AutoDetect (Detected results) stamp) =
     (if currentFileIndex st < length (files st) \<and> ftype (files st ! currentFileIndex st) = Image
      then map mask_id (newMasks stamp results) else [])"
| "idsCreated st _ = []"

fun generated :: "App \<Rightarrow> Action list \<Rightarrow> string list" where
  "generated st [] = []"
| "generated st (a # acts) = idsCreated st a @ generated (applyAction a st) acts"

section \<open>The mask store with array identities\<close>

text \<open>
  The same two operations of App.tsx with the arrays of rectangles kept in a store:
  a file holds a reference to its \<open>masks\<close> array, \<open>arrays\<close> gives the contents of every
  array that exists, and \<open>nextRef\<close> is the identity that the next array created will
  get. An array literal or a spread (\<open>[...sourceMasks]\<close>, \<open>[...prev, newMask]\<close>, \<open>[]\<close>)
  creates a new array; nothing in App.tsx or CanvasEditor.tsx writes into an existing
  one.
\<close>

type_synonym ref = nat

record Heap =
  arrays :: "ref \<Rightarrow> MaskRect list option"
  nextRef :: ref

record AppRefs =
  files_r :: "ref ProjectFile list"
  currentFileIndex_r :: nat
  heap :: Heap

definition newArray :: "MaskRect list \<Rightarrow> Heap \<Rightarrow> ref \<times> Heap" where
  "newArray xs h = (nextRef h, h\<lparr>arrays := (arrays h)(nextRef h \<mapsto> xs), nextRef := Suc (nextRef h)\<rparr>)"

definition readArray :: "Heap \<Rightarrow> ref \<Rightarrow> MaskRect list" where
  "readArray h r = (case arrays h r of Some xs \<Rightarrow> xs | None \<Rightarrow> [])"

text \<open>
  \<open>prev.map(f => f.type === 'image' ? { ...f, masks: [...sourceMasks] } : f)\<close>: one new
  array per image file, each a copy of the contents of \<open>sourceMasks\<close> at that moment.
\<close>

fun copyToImages :: "ref \<Rightarrow> ref ProjectFile list \<Rightarrow> Heap \<Rightarrow> ref ProjectFile list \<times> Heap" where
  "copyToImages sourceMasks [] h = ([], h)"
| "copyToImages sourceMasks (f # fs) h =
     (if ftype f = Image then
        (case newArray (readArray h sourceMasks) h of
           (r, h1) \<Rightarrow>
             (case copyToImages sourceMasks fs h1 of (fs', h2) \<Rightarrow> (f\<lparr>masks := r\<rparr> # fs', h2)))
      else
        (case copyToImages sourceMasks fs h of (fs', h2) \<Rightarrow> (f # fs', h2)))"

definition handleApplyMasksToAll_refs :: "bool \<Rightarrow> AppRefs \<Rightarrow> AppRefs option" where
  "handleApplyMasksToAll_refs confirmed st =
     (if currentFileIndex_r st < length (files_r st) then
        (let sourceMasks = masks (files_r st ! currentFileIndex_r st) in
         if length (readArray (heap st) sourceMasks) = 0 then Some st
         else if \<not> confirmed then Some st
         else
           (case copyToImages sourceMasks (files_r st) (heap st) of
              (fs', h') \<Rightarrow> Some (st\<lparr>files_r := fs', heap := h'\<rparr>)))
      else None)"

text \<open>
  handleMaskChange: the array stored in the copy of the current file is the one the
  updater returns (a spread of \<open>prev\<close>, hence new) or the one the caller passes (the
  literal \<open>[]\<close> of \<open>onClear\<close>, hence new).
\<close>

definition handleMaskChange_refs :: "MaskChange \<Rightarrow> AppRefs \<Rightarrow> AppRefs" where
  "handleMaskChange_refs newMasksOrFn st =
     (let k = currentFileIndex_r st in
      if k < length (files_r st) \<and> ftype (files_r st ! k) = Image then
        (case newArray
                (case newMasksOrFn of
                   Updater fn \<Rightarrow> fn (readArray (heap st) (masks (files_r st ! k)))
                 | NewMasks ms \<Rightarrow> ms)
                (heap st) of
           (r, h') \<Rightarrow> st\<lparr>files_r := (files_r st)[k := (files_r st ! k)\<lparr>masks := r\<rparr>], heap := h'\<rparr>)
      else st)"

text \<open>The value model that a store state stands for: every reference replaced by the contents.\<close>

definition contents :: "Heap \<Rightarrow> ref ProjectFile \<Rightarrow> MaskRect list ProjectFile" where
  "contents h f =
     \<lparr>name = name f, blob = blob f, url = url f, ftype = ftype f, masks = readArray h (masks f)\<rparr>"

section \<open>Example inputs\<close>

definition whiteImage :: HTMLImage where
  "whiteImage = \<lparr>naturalWidth = 4, naturalHeight = 2, imageData = (\<lambda>i j. (1, 1, 1, 1))\<rparr>"

definition idleEditor :: Editor where
  "idleEditor =
     \<lparr>loadedImage = Some whiteImage,
      dragRef = \<lparr>isDown = False, startX = 0, startY = 0, scrollLeft = 0, scrollTop = 0\<rparr>,
      currentRect = None,
      containerRef = Some \<lparr>cont_scrollLeft = 0, cont_scrollTop = 0\<rparr>,
      canvasRef = True\<rparr>"

definition pointerAt :: "real \<Rightarrow> real \<Rightarrow> MouseEvent" where
  "pointerAt px py =
     \<lparr>clientX = px, clientY = py, rect_left = 0, rect_top = 0, rect_width = 100, rect_height = 100\<rparr>"

definition draggingEditor :: Editor where
  "draggingEditor =
     \<lparr>loadedImage = Some whiteImage,
      dragRef = \<lparr>isDown = True, startX = 10, startY = 10, scrollLeft = 0, scrollTop = 0\<rparr>,
      currentRect = Some \<lparr>rect_x = 0.5, rect_y = 0.5, rect_w = - 0.3, rect_h = - 0.2\<rparr>,
      containerRef = Some \<lparr>cont_scrollLeft = 5, cont_scrollTop = 7\<rparr>,
      canvasRef = True\<rparr>"



definition rightHalfMask :: MaskRect where
  "rightHalfMask = newMask 7 0.5 0 0.5 1"

definition fullMask :: MaskRect where
  "fullMask = newMask 8 0 0 1 1"

definition imageFile :: "string \<Rightarrow> string \<Rightarrow> MaskRect list \<Rightarrow> MaskRect list ProjectFile" where
  "imageFile n u ms = \<lparr>name = n, blob = FileBlob n, url = u, ftype = Image, masks = ms\<rparr>"

definition browser :: ExportEnv where
  "browser =
     \<lparr>decode = (\<lambda>u. if u = ''blob:white'' then Some whiteImage else None),
      context2d = (\<lambda>cw ch. True), encodes = (\<lambda>cv. True), generates = True\<rparr>"


definition grayImage :: HTMLImage where
  "grayImage = \<lparr>naturalWidth = 2, naturalHeight = 2, imageData = (\<lambda>i j. (0.5, 0.5, 0.5, 1))\<rparr>"

definition pdfBrowser :: ExportEnv where
  "pdfBrowser =
     \<lparr>decode = (\<lambda>u. if u = ''blob:p2'' then Some whiteImage
                     else if u = ''blob:p3'' then Some grayImage else None),
      context2d = (\<lambda>cw ch. True), encodes = (\<lambda>cv. True), generates = True\<rparr>"

definition pdfProject :: App where
  "pdfProject = handleProjectStart ''''
     [imageFile ''doc.pdf [P1]'' ''blob:p1'' [], imageFile ''doc.pdf [P2]'' ''blob:p2'' [],
      imageFile ''doc.pdf [P3]'' ''blob:p3'' []]"

definition unloadedEditor :: Editor where
  "unloadedEditor =
     \<lparr>loadedImage = None,
      dragRef = \<lparr>isDown = False, startX = 0, startY = 0, scrollLeft = 0, scrollTop = 0\<rparr>,
      currentRect = None,
      containerRef = Some \<lparr>cont_scrollLeft = 0, cont_scrollTop = 0\<rparr>,
      canvasRef = False\<rparr>"

definition singleProject :: App where
  "singleProject = handleProjectStart ''keep tolerances'' [imageFile ''a.jpg'' ''blob:white'' [rightHalfMask]]"


definition twoImages :: App where
  "twoImages = handleProjectStart ''''
     [imageFile ''a.jpg'' ''blob:white'' [], imageFile ''b.jpg'' ''blob:white'' []]"

definition titleBlock :: AiDetectionResult where
  "titleBlock = \<lparr>box_2d = (100, 200, 400, 600), label = ''title block''\<rparr>"

definition stampAt7 :: "nat \<Rightarrow> nat \<times> string" where
  "stampAt7 k = (7, if k = 0 then ''0.1'' else ''0.2'')"


definition tableFile :: "string \<Rightarrow> 'm \<Rightarrow> 'm ProjectFile" where
  "tableFile n ms = \<lparr>name = n, blob = FileBlob n, url = [], ftype = Table, masks = ms\<rparr>"

definition storeProject :: AppRefs where
  "storeProject =
     \<lparr>files_r = [\<lparr>name = ''a.jpg'', blob = FileBlob ''a.jpg'', url = ''blob:a'', ftype = Image, masks = 0\<rparr>,
                 \<lparr>name = ''b.jpg'', blob = FileBlob ''b.jpg'', url = ''blob:b'', ftype = Image, masks = 1\<rparr>,
                 tableFile ''bom.csv'' 2],
      currentFileIndex_r = 0,
      heap = \<lparr>arrays = [0 \<mapsto> [rightHalfMask], 1 \<mapsto> [], 2 \<mapsto> []], nextRef = 3\<rparr>\<rparr>"


section \<open>Properties of the detection reconciler\<close>


section \<open>Properties of the interaction state machine\<close>

lemma handleMouseUp_cases:
  "snd (handleMouseUp mode now s prev) = prev
   \<or> (\<exists>r. mode = DRAW \<and> currentRect s = Some r
        \<and> \<bar>rect_w r\<bar> > 0.005 \<and> \<bar>rect_h r\<bar> > 0.005
        \<and> snd (handleMouseUp mode now s prev) =
            prev @ [newMask now (min (rect_x r) (rect_x r + rect_w r)) (min (rect_y r) (rect_y r + rect_h r))
                      \<bar>rect_w r\<bar> \<bar>rect_h r\<bar>])"
  by (cases mode; cases "currentRect s") (auto simp: handleMouseUp_def Let_def min_def)










text \<open>
  A drag is in progress (anchor 10, an in-progress rectangle, pan reference 0 while the
  container is scrolled to 5); a second pointer-down moves the anchor to 50, replaces
  the rectangle in draw mode and moves the pan reference to 5 in pan mode.
\<close>

theorem nested_pointer_down_counterexample:
  "isDown (dragRef draggingEditor)
   \<and> startX (dragRef (handleMouseDown DRAW (pointerAt 50 60) draggingEditor)) = 50
   \<and> startX (dragRef draggingEditor) = 10
   \<and> startX (dragRef (handleMouseDown DRAW (pointerAt 50 60) draggingEditor))
        \<noteq> startX (dragRef draggingEditor)
   \<and> currentRect (handleMouseDown DRAW (pointerAt 50 60) draggingEditor) \<noteq> currentRect draggingEditor
   \<and> scrollLeft (dragRef (handleMouseDown PAN (pointerAt 50 60) draggingEditor))
        \<noteq> scrollLeft (dragRef draggingEditor)
   \<and> currentRect (handleMouseDown DRAW (pointerAt 50 60) draggingEditor)
        = Some \<lparr>rect_x = 0.5, rect_y = 0.6, rect_w = 0, rect_h = 0\<rparr>
   \<and> currentRect draggingEditor = Some \<lparr>rect_x = 0.5, rect_y = 0.5, rect_w = - 0.3, rect_h = - 0.2\<rparr>
   \<and> scrollLeft (dragRef (handleMouseDown PAN (pointerAt 50 60) draggingEditor)) = 5
   \<and> scrollLeft (dragRef draggingEditor) = 0"
  by (simp add: draggingEditor_def pointerAt_def handleMouseDown_def getNormalizedPos_def Let_def)

text \<open>
  C8, as the code has it. handleMouseDown has no guard on \<open>isDown\<close>: a pointer-down that
  arrives during a drag is handled like one arriving when idle. With an image loaded it
  records the drag anchor anew at the pointer; in draw mode it replaces the in-progress
  rectangle by an empty one at the pointer's normalised position and leaves the pan
  reference alone; in pan mode it records the container's scroll offsets anew and leaves
  the in-progress rectangle alone.
\<close>

theorem pointer_down_restarts_drag:
  "loadedImage s \<noteq> None \<Longrightarrow>
   (let s' = handleMouseDown mode e s in
      isDown (dragRef s') \<and> startX (dragRef s') = clientX e \<and> startY (dragRef s') = clientY e
      \<and> (mode = DRAW \<longrightarrow>
            currentRect s' = Some \<lparr>rect_x = fst (getNormalizedPos e), rect_y = snd (getNormalizedPos e),
                                   rect_w = 0, rect_h = 0\<rparr>
            \<and> scrollLeft (dragRef s') = scrollLeft (dragRef s)
            \<and> scrollTop (dragRef s') = scrollTop (dragRef s))
      \<and> (mode = PAN \<longrightarrow>
            currentRect s' = currentRect s
            \<and> (\<forall>c. containerRef s = Some c \<longrightarrow>
                  scrollLeft (dragRef s') = cont_scrollLeft c \<and> scrollTop (dragRef s') = cont_scrollTop c)))"
  by (cases mode; cases "containerRef s") (auto simp: handleMouseDown_def Let_def)

theorem pointer_down_restarts_drag_witness:
  "loadedImage draggingEditor \<noteq> None \<and> isDown (dragRef draggingEditor)
   \<and> startX (dragRef (handleMouseDown DRAW (pointerAt 50 60) draggingEditor)) = 50
   \<and> startY (dragRef (handleMouseDown DRAW (pointerAt 50 60) draggingEditor)) = 60
   \<and> currentRect (handleMouseDown DRAW (pointerAt 50 60) draggingEditor)
        = Some \<lparr>rect_x = 0.5, rect_y = 0.6, rect_w = 0, rect_h = 0\<rparr>
   \<and> scrollLeft (dragRef (handleMouseDown PAN (pointerAt 50 60) draggingEditor)) = 5
   \<and> scrollTop (dragRef (handleMouseDown PAN (pointerAt 50 60) draggingEditor)) = 7"
  using pointer_down_restarts_drag[where s = draggingEditor and mode = DRAW and e = "pointerAt 50 60"]
    pointer_down_restarts_drag[where s = draggingEditor and mode = PAN and e = "pointerAt 50 60"]
  by (simp add: draggingEditor_def pointerAt_def handleMouseDown_def getNormalizedPos_def Let_def)

section \<open>Properties of the export composite\<close>

lemma overlap_outside:
  "real i + 1 \<le> boxLo a len \<or> boxHi a len \<le> real i \<Longrightarrow> overlap a len i = 0"
  by (auto simp: overlap_def boxLo_def boxHi_def)

lemma overlap_inside:
  "boxLo a len \<le> real i \<Longrightarrow> real i + 1 \<le> boxHi a len \<Longrightarrow> overlap a len i = 1"
  by (auto simp: overlap_def boxLo_def boxHi_def)

lemma coverage_outside:
  "pixelOutside nw nh m i j \<Longrightarrow>
   coverage (mask_x m * real nw) (mask_y m * real nh) (mask_w m * real nw) (mask_h m * real nh) i j = 0"
  unfolding pixelOutside_def coverage_def
  by (elim disjE) (simp_all add: overlap_outside)

lemma coverage_inside:
  "pixelInside nw nh m i j \<Longrightarrow>
   coverage (mask_x m * real nw) (mask_y m * real nh) (mask_w m * real nw) (mask_h m * real nh) i j = 1"
  unfolding pixelInside_def coverage_def
  by (simp add: overlap_inside)

lemma sourceOver_none: "sourceOver 0 src dst = dst"
  by (simp add: sourceOver_def split: prod.splits)

lemma sourceOver_black_full: "sourceOver 1 black dst = black"
  by (simp add: sourceOver_def black_def split: prod.splits)

lemma sourceOver_black_black: "sourceOver c black black = black"
  by (simp add: sourceOver_def black_def)

lemma sourceOver_on_transparent: "sourceOver 1 src transparent = src"
  by (simp add: sourceOver_def transparent_def split: prod.splits)

lemma fillMasks_width: "canvas_width (fillMasks nw nh ms cv) = canvas_width cv"
  by (induction ms arbitrary: cv) (simp_all add: fillRect_def)

lemma fillMasks_height: "canvas_height (fillMasks nw nh ms cv) = canvas_height cv"
  by (induction ms arbitrary: cv) (simp_all add: fillRect_def)

lemma fillMasks_outside:
  "\<forall>m\<in>set ms. pixelOutside nw nh m i j \<Longrightarrow>
   canvas_data (fillMasks nw nh ms cv) i j = canvas_data cv i j"
  by (induction ms arbitrary: cv) (simp_all add: fillRect_def coverage_outside sourceOver_none)

lemma fillMasks_black:
  "canvas_data cv i j = black \<Longrightarrow> canvas_data (fillMasks nw nh ms cv) i j = black"
  by (induction ms arbitrary: cv) (simp_all add: fillRect_def sourceOver_black_black)

lemma fillMasks_inside:
  assumes "m \<in> set ms" "pixelInside nw nh m i j" "i < canvas_width cv" "j < canvas_height cv"
  shows "canvas_data (fillMasks nw nh ms cv) i j = black"
  using assms
proof (induction ms arbitrary: cv)
  case Nil
  then show ?case by simp
next
  case (Cons a ms)
  let ?cv = "fillRect black (mask_x a * real nw) (mask_y a * real nh)
          (mask_w a * real nw) (mask_h a * real nh) cv"
  show ?case
  proof (cases "a = m")
    case True
    have "canvas_data ?cv i j = black"
      using Cons.prems True by (simp add: fillRect_def coverage_inside sourceOver_black_full)
    then show ?thesis by (simp add: fillMasks_black)
  next
    case False
    with Cons.prems have "m \<in> set ms" by simp
    moreover have "i < canvas_width ?cv" "j < canvas_height ?cv"
      using Cons.prems by (simp_all add: fillRect_def)
    ultimately have "canvas_data (fillMasks nw nh ms ?cv) i j = black"
      using Cons.prems(2) by (intro Cons.IH)
    then show ?thesis by simp
  qed
qed

lemma drawImage_fresh:
  "i < naturalWidth im \<Longrightarrow> j < naturalHeight im \<Longrightarrow>
   canvas_data (drawImage im (createCanvas (naturalWidth im) (naturalHeight im))) i j = imageData im i j"
  by (simp add: drawImage_def createCanvas_def sourceOver_on_transparent)

text \<open>
  C1. For every image and every mask collection the full-resolution export composite,
  as built by the export effect of CanvasEditor and by processImageForExport, has the
  image's intrinsic pixel dimensions, equals the source image at every pixel outside all
  mask rectangles and is opaque black at every pixel inside the pixel-space box of some
  mask rectangle. With no masks it is a copy of the source image; with one full-image
  mask (\<open>x = 0, y = 0, w = 1, h = 1\<close>) every pixel is opaque black and the composite is
  the same for every source image of those dimensions, so nothing of the original can be
  recovered from it.
\<close>

theorem export_composite:
  "(let nw = naturalWidth im; nh = naturalHeight im;
        cv = fillMasks nw nh ms (drawImage im (createCanvas nw nh));
        blank = fillMasks nw nh [] (drawImage im (createCanvas nw nh));
        covered = fillMasks nw nh [m1] (drawImage im (createCanvas nw nh))
    in (loadedImage s = Some im \<longrightarrow>
          (\<forall>d. exportEffect trigger ctx now s ms = Some d \<longrightarrow> href d = cv))
     \<and> (ftype f = Image \<and> decode env (url f) = Some im \<and> masks f = ms \<longrightarrow>
          (\<forall>b. processImageForExport env f = Inr b \<longrightarrow> b = PngBlob cv))
     \<and> canvas_width cv = nw \<and> canvas_height cv = nh
     \<and> (\<forall>i j. i < nw \<and> j < nh \<and> (\<forall>m\<in>set ms. pixelOutside nw nh m i j) \<longrightarrow>
           canvas_data cv i j = imageData im i j)
     \<and> (\<forall>i j. i < nw \<and> j < nh \<and> (\<exists>m\<in>set ms. pixelInside nw nh m i j) \<longrightarrow>
           canvas_data cv i j = black)
     \<and> canvas_width blank = nw \<and> canvas_height blank = nh
     \<and> (\<forall>i j. i < nw \<and> j < nh \<longrightarrow> canvas_data blank i j = imageData im i j)
     \<and> (mask_x m1 = 0 \<and> mask_y m1 = 0 \<and> mask_w m1 = 1 \<and> mask_h m1 = 1 \<longrightarrow>
          (\<forall>i j. i < nw \<and> j < nh \<longrightarrow> canvas_data covered i j = black)
          \<and> (\<forall>im'. naturalWidth im' = nw \<and> naturalHeight im' = nh \<longrightarrow>
                 fillMasks nw nh [m1] (drawImage im' (createCanvas nw nh)) = covered)))"
proof -
  let ?nw = "naturalWidth im" and ?nh = "naturalHeight im"
  let ?base = "drawImage im (createCanvas ?nw ?nh)"
  let ?cv = "fillMasks ?nw ?nh ms ?base"
  have dims: "canvas_width ?base = ?nw" "canvas_height ?base = ?nh"
    by (simp_all add: drawImage_def createCanvas_def)
  have a: "loadedImage s = Some im \<longrightarrow>
          (\<forall>d. exportEffect trigger ctx now s ms = Some d \<longrightarrow> href d = ?cv)"
    by (auto simp: exportEffect_def split: if_splits)
  have b: "ftype f = Image \<and> decode env (url f) = Some im \<and> masks f = ms \<longrightarrow>
          (\<forall>b. processImageForExport env f = Inr b \<longrightarrow> b = PngBlob ?cv)"
    by (auto simp: processImageForExport_def Let_def split: if_splits)
  have c: "canvas_width ?cv = ?nw \<and> canvas_height ?cv = ?nh"
    by (simp add: fillMasks_width fillMasks_height dims)
  have d: "\<forall>i j. i < ?nw \<and> j < ?nh \<and> (\<forall>m\<in>set ms. pixelOutside ?nw ?nh m i j) \<longrightarrow>
           canvas_data ?cv i j = imageData im i j"
    by (simp add: fillMasks_outside drawImage_fresh)
  have e: "\<forall>i j. i < ?nw \<and> j < ?nh \<and> (\<exists>m\<in>set ms. pixelInside ?nw ?nh m i j) \<longrightarrow>
           canvas_data ?cv i j = black"
    using fillMasks_inside[where cv = ?base and nw = ?nw and nh = ?nh and ms = ms] dims by metis
  have f: "\<forall>i j. i < ?nw \<and> j < ?nh \<longrightarrow> canvas_data (fillMasks ?nw ?nh [] ?base) i j = imageData im i j"
    by (simp add: drawImage_fresh)
  have g: "mask_x m1 = 0 \<and> mask_y m1 = 0 \<and> mask_w m1 = 1 \<and> mask_h m1 = 1 \<longrightarrow>
          (\<forall>i j. i < ?nw \<and> j < ?nh \<longrightarrow> canvas_data (fillMasks ?nw ?nh [m1] ?base) i j = black)"
  proof (intro impI allI)
    fix i j
    assume m: "mask_x m1 = 0 \<and> mask_y m1 = 0 \<and> mask_w m1 = 1 \<and> mask_h m1 = 1"
      and ij: "i < ?nw \<and> j < ?nh"
    then have "pixelInside ?nw ?nh m1 i j"
      by (simp add: pixelInside_def boxLo_def boxHi_def)
    with ij dims show "canvas_data (fillMasks ?nw ?nh [m1] ?base) i j = black"
      by (intro fillMasks_inside[where m = m1]) simp_all
  qed
  have k: "mask_x m1 = 0 \<and> mask_y m1 = 0 \<and> mask_w m1 = 1 \<and> mask_h m1 = 1 \<longrightarrow>
          (\<forall>im'. naturalWidth im' = ?nw \<and> naturalHeight im' = ?nh \<longrightarrow>
                 fillMasks ?nw ?nh [m1] (drawImage im' (createCanvas ?nw ?nh)) = fillMasks ?nw ?nh [m1] ?base)"
  proof (intro impI allI)
    fix im' :: HTMLImage
    assume m: "mask_x m1 = 0 \<and> mask_y m1 = 0 \<and> mask_w m1 = 1 \<and> mask_h m1 = 1"
      and sz: "naturalWidth im' = ?nw \<and> naturalHeight im' = ?nh"
    have inside: "pixelInside ?nw ?nh m1 i j" if "i < ?nw" "j < ?nh" for i j
      using m that by (simp add: pixelInside_def boxLo_def boxHi_def)
    have "canvas_data (fillMasks ?nw ?nh [m1] (drawImage im' (createCanvas ?nw ?nh))) i j
          = canvas_data (fillMasks ?nw ?nh [m1] ?base) i j" for i j
    proof (cases "i < ?nw \<and> j < ?nh")
      case True
      then show ?thesis
        by (simp add: fillRect_def drawImage_def createCanvas_def coverage_inside[OF inside]
              sourceOver_black_full)
    next
      case False
      then show ?thesis
        using sz by (auto simp: fillRect_def drawImage_def createCanvas_def)
    qed
    then have "canvas_data (fillMasks ?nw ?nh [m1] (drawImage im' (createCanvas ?nw ?nh)))
          = canvas_data (fillMasks ?nw ?nh [m1] ?base)"
      by (intro ext)
    then show "fillMasks ?nw ?nh [m1] (drawImage im' (createCanvas ?nw ?nh)) = fillMasks ?nw ?nh [m1] ?base"
      by (intro Canvas.equality) (simp_all add: fillRect_def drawImage_def createCanvas_def)
  qed
  have h: "canvas_width (fillMasks ?nw ?nh [] ?base) = ?nw \<and> canvas_height (fillMasks ?nw ?nh [] ?base) = ?nh"
    by (simp add: dims)
  from a b c d e f g h k show ?thesis unfolding Let_def by blast
qed

theorem export_composite_witness:
  "(case exportEffect 1 True 9 idleEditor [rightHalfMask] of
      Some d \<Rightarrow> canvas_width (href d) = 4 \<and> canvas_height (href d) = 2
                \<and> canvas_data (href d) 3 1 = black \<and> canvas_data (href d) 0 0 = (1, 1, 1, 1)
    | None \<Rightarrow> False)
   \<and> (case processImageForExport browser (imageFile ''a.jpg'' ''blob:white'' [rightHalfMask]) of
        Inr (PngBlob cv) \<Rightarrow> canvas_width cv = 4 \<and> canvas_height cv = 2
                \<and> canvas_data cv 3 1 = black \<and> canvas_data cv 0 0 = (1, 1, 1, 1)
      | _ \<Rightarrow> False)
   \<and> pixelInside 4 2 rightHalfMask 3 1 \<and> pixelOutside 4 2 rightHalfMask 0 0
   \<and> canvas_data (fillMasks 4 2 [] (drawImage whiteImage (createCanvas 4 2))) 3 1 = imageData whiteImage 3 1
   \<and> canvas_data (fillMasks 4 2 [fullMask] (drawImage whiteImage (createCanvas 4 2))) 3 1 = black"
  using export_composite[where im = whiteImage and ms = "[rightHalfMask]" and s = idleEditor
      and trigger = 1 and ctx = True and now = 9 and env = browser
      and f = "imageFile ''a.jpg'' ''blob:white'' [rightHalfMask]" and ?m1.0 = fullMask]
  by (simp add: exportEffect_def processImageForExport_def idleEditor_def whiteImage_def
        rightHalfMask_def fullMask_def imageFile_def browser_def newMask_def createCanvas_def
        drawImage_def fillRect_def coverage_def overlap_def sourceOver_def black_def
        transparent_def pixelInside_def pixelOutside_def boxLo_def boxHi_def Let_def)

section \<open>Properties of the export pipeline\<close>

lemma removeExtension_examples:
  "removeExtension ''doc.pdf [P1]'' = ''doc''" "removeExtension ''a.b/c'' = ''a.b/c''"
  "removeExtension ''dir/a.jpg'' = ''dir/a''" "removeExtension ''noext'' = ''noext''"
  "removeExtension ''a.tar.gz'' = ''a.tar''" "removeExtension ''a.'' = ''a.''"
  by simp_all

lemma exportName_png:
  "ftype f = Image \<Longrightarrow> \<exists>stem. exportName f = stem @ ''.png''"
  by (simp add: exportName_def)

text \<open>
  C9. The specification asks that the archive entry names of distinct subjects are
  pairwise distinct and that every redacted image gets the extension of the output
  format. The
  second part holds (exportName_png above). The first does not: WelcomeScreen names the
  pages of \<open>doc.pdf\<close> \<open>doc.pdf [P1]\<close>, \<open>doc.pdf [P2]\<close>, ..., and the extension pattern of
  handleBatchExport removes everything from the dot on, the page suffix included, so
  every page of one PDF is written under the entry name \<open>doc.png\<close>. Two images that
  differ only in their extension collide likewise.
\<close>

theorem pdf_pages_share_export_name:
  "name (imageFile ''doc.pdf [P1]'' ''blob:p1'' []) \<noteq> name (imageFile ''doc.pdf [P2]'' ''blob:p2'' [])
   \<and> exportName (imageFile ''doc.pdf [P1]'' ''blob:p1'' []) = ''doc.png''
   \<and> exportName (imageFile ''doc.pdf [P2]'' ''blob:p2'' []) = ''doc.png''
   \<and> exportName (imageFile ''a.jpg'' ''blob:a'' []) = exportName (imageFile ''a.png'' ''blob:b'' [])"
  by (simp add: exportName_def imageFile_def)

text \<open>
  A failure is skipped without touching the other subjects, and with pairwise distinct
  entry names every successful subject's output is in the folder.
\<close>

lemma addExports_skips_failures:
  "addExports env fs folder =
   addExports env (filter (\<lambda>f. \<exists>b. processImageForExport env f = Inr b) fs) folder"
  by (induction fs arbitrary: folder) (auto split: sum.splits)

lemma addExports_other:
  "n \<notin> exportName ` set fs \<Longrightarrow> addExports env fs folder n = folder n"
  by (induction fs arbitrary: folder) (auto split: sum.splits)

lemma addExports_contains:
  "distinct (map exportName fs) \<Longrightarrow> f \<in> set fs \<Longrightarrow> processImageForExport env f = Inr b \<Longrightarrow>
   addExports env fs folder (exportName f) = Some (BlobEntry b)"
proof (induction fs arbitrary: folder)
  case Nil
  then show ?case by simp
next
  case (Cons a fs)
  show ?case
  proof (cases "a = f")
    case True
    with Cons.prems show ?thesis by (simp add: addExports_other)
  next
    case False
    with Cons.prems Cons.IH show ?thesis by (auto split: sum.splits)
  qed
qed

text \<open>
  C5. The specification asks that when one subject's composition fails, the archive
  still holds the output of every subject whose composition succeeded. The failure is
  indeed skipped
  (addExports_skips_failures), but for the three pages of one PDF, the first of which
  fails to load, the folder ends with the single entry \<open>doc.png\<close>: the two successful
  pages have different outputs and share their entry name, so whichever is written
  first is replaced by the other.
\<close>

theorem failed_page_drops_a_successful_page:
  "processImageForExport pdfBrowser (files pdfProject ! 0) = Inl ''Image load error''
   \<and> processImageForExport pdfBrowser (files pdfProject ! 1)
        = Inr (PngBlob (drawImage whiteImage (createCanvas 4 2)))
   \<and> processImageForExport pdfBrowser (files pdfProject ! 2)
        = Inr (PngBlob (drawImage grayImage (createCanvas 2 2)))
   \<and> PngBlob (drawImage whiteImage (createCanvas 4 2)) \<noteq> PngBlob (drawImage grayImage (createCanvas 2 2))
   \<and> addExports pdfBrowser [files pdfProject ! 0, files pdfProject ! 2, files pdfProject ! 1] Map.empty
        = [''doc.png'' \<mapsto> BlobEntry (PngBlob (drawImage whiteImage (createCanvas 4 2)))]
   \<and> handleBatchExport pdfBrowser pdfProject
        = (pdfProject, Saved [''doc.png'' \<mapsto> BlobEntry (PngBlob (drawImage grayImage (createCanvas 2 2)))])"
  by (simp add: pdfProject_def pdfBrowser_def handleProjectStart_def imageFile_def
        handleBatchExport_def processImageForExport_def exportName_def whiteImage_def grayImage_def
        drawImage_def createCanvas_def Let_def)

text \<open>
  A project of one image with a description: batch export only raises \<open>exportTrigger\<close>;
  an editor that holds no decoded image then delivers nothing.
\<close>

theorem single_image_export_counterexample:
  "files singleProject = [imageFile ''a.jpg'' ''blob:white'' [rightHalfMask]]
   \<and> ftype (imageFile ''a.jpg'' ''blob:white'' [rightHalfMask]) = Image
   \<and> handleBatchExport browser singleProject = (singleProject\<lparr>exportTrigger := 1\<rparr>, SingleImageExport)
   \<and> exportEffect 1 True 9 unloadedEditor [rightHalfMask] = None"
  by (simp add: singleProject_def handleProjectStart_def imageFile_def handleBatchExport_def
        exportEffect_def unloadedEditor_def)

text \<open>
  C10, as the code has it. If the project consists of exactly one file and that file is
  an image, handleBatchExport builds no archive and no manifest, whatever the project
  description: it only increments \<open>exportTrigger\<close>, which is then positive. The export
  effect of CanvasEditor run with that trigger delivers one PNG of the full-resolution
  composite when the editor holds a decoded image, its canvas is mounted and a 2D
  context is available, and delivers nothing otherwise.
\<close>

theorem single_image_takes_single_export_path:
  "files st = [f] \<Longrightarrow> ftype f = Image \<Longrightarrow>
   handleBatchExport env st = (st\<lparr>exportTrigger := exportTrigger st + 1\<rparr>, SingleImageExport)
   \<and> 0 < exportTrigger (fst (handleBatchExport env st))
   \<and> (\<forall>folder. snd (handleBatchExport env st) \<noteq> Saved folder)
   \<and> exportEffect (exportTrigger (fst (handleBatchExport env st))) ctx now s ms =
       (case loadedImage s of
          Some im \<Rightarrow>
            if canvasRef s \<and> ctx
            then Some \<lparr>download = ''desensitized_'' @ toString now @ ''.png'',
                       href = fillMasks (naturalWidth im) (naturalHeight im) ms
                                (drawImage im (createCanvas (naturalWidth im) (naturalHeight im)))\<rparr>
            else None
        | None \<Rightarrow> None)"
  by (simp add: handleBatchExport_def exportEffect_def split: option.splits)

theorem single_image_takes_single_export_path_witness:
  "files singleProject = [imageFile ''a.jpg'' ''blob:white'' [rightHalfMask]]
   \<and> projectDesc singleProject = ''keep tolerances''
   \<and> handleBatchExport browser singleProject = (singleProject\<lparr>exportTrigger := 1\<rparr>, SingleImageExport)
   \<and> exportEffect (exportTrigger (fst (handleBatchExport browser singleProject))) True 9 idleEditor [rightHalfMask]
       = Some \<lparr>download = ''desensitized_9.png'',
               href = fillMasks 4 2 [rightHalfMask] (drawImage whiteImage (createCanvas 4 2))\<rparr>"
  using single_image_takes_single_export_path[where st = singleProject
      and f = "imageFile ''a.jpg'' ''blob:white'' [rightHalfMask]" and env = browser
      and ctx = True and now = 9 and s = idleEditor and ms = "[rightHalfMask]"]
  by (simp add: singleProject_def handleProjectStart_def imageFile_def idleEditor_def whiteImage_def
        handleBatchExport_def exportEffect_def toString.simps digit_def)

section \<open>Properties of the identifiers\<close>

lemma digit_inj: "d < 10 \<Longrightarrow> e < 10 \<Longrightarrow> digit d = digit e \<Longrightarrow> d = e"
proof -
  assume "d < 10" "e < 10" "digit d = digit e"
  moreover have "distinct ''0123456789''" by simp
  ultimately show ?thesis
    unfolding digit_def by (simp add: nth_eq_iff_index_eq)
qed

lemma digit_in: "d < 10 \<Longrightarrow> digit d \<in> set ''0123456789''"
  unfolding digit_def by (intro nth_mem) simp

lemma toString_digits: "set (toString n) \<subseteq> set ''0123456789''"
proof (induction n rule: toString.induct)
  case (1 n)
  show ?case
  proof (cases "n < 10")
    case True
    then show ?thesis using digit_in[of n] by (subst toString.simps) simp
  next
    case False
    have "n mod 10 < 10" by simp
    from digit_in[OF this] 1[OF False] False show ?thesis
      by (subst toString.simps) simp
  qed
qed

lemma toString_nonempty: "toString n \<noteq> []"
  by (subst toString.simps) simp

lemma toString_inj: "toString a = toString b \<Longrightarrow> a = b"
proof (induction a arbitrary: b rule: toString.induct)
  case (1 n)
  show ?case
  proof (cases "n < 10")
    case True
    show ?thesis
    proof (cases "b < 10")
      case b: True
      from "1.prems" True b have "digit n = digit b"
        by (simp add: toString.simps[of n] toString.simps[of b])
      with True b show ?thesis by (rule digit_inj)
    next
      case b: False
      from "1.prems" True b have "[digit n] = toString (b div 10) @ [digit (b mod 10)]"
        by (simp add: toString.simps[of n] toString.simps[of b])
      then have "toString (b div 10) = []" by simp
      with toString_nonempty show ?thesis by blast
    qed
  next
    case False
    show ?thesis
    proof (cases "b < 10")
      case b: True
      from "1.prems" False b have "toString (n div 10) @ [digit (n mod 10)] = [digit b]"
        by (simp add: toString.simps[of n] toString.simps[of b])
      then have "toString (n div 10) = []" by simp
      with toString_nonempty show ?thesis by blast
    next
      case b: False
      from "1.prems" False b
      have "toString (n div 10) @ [digit (n mod 10)] = toString (b div 10) @ [digit (b mod 10)]"
        by (simp add: toString.simps[of n] toString.simps[of b])
      then have e: "toString (n div 10) = toString (b div 10)" "digit (n mod 10) = digit (b mod 10)"
        by simp_all
      from "1.IH"[OF False e(1)] have "n div 10 = b div 10" .
      moreover from e(2) have "n mod 10 = b mod 10" by (intro digit_inj) simp_all
      ultimately show ?thesis by (metis div_mult_mod_eq)
    qed
  qed
qed

lemma split_at_first:
  "c \<notin> set xs \<Longrightarrow> c \<notin> set xs' \<Longrightarrow> xs @ c # ys = xs' @ c # ys' \<Longrightarrow> xs = xs' \<and> ys = ys'"
proof (induction xs arbitrary: xs')
  case Nil
  then show ?case by (cases xs') auto
next
  case (Cons a xs)
  then show ?case by (cases xs') auto
qed

lemma aiId_inj: "aiId p = aiId q \<Longrightarrow> p = q"
proof -
  assume "aiId p = aiId q"
  then have e: "toString (fst p) @ CHR ''-'' # snd p = toString (fst q) @ CHR ''-'' # snd q"
    by (simp add: aiId_def)
  have "CHR ''-'' \<notin> set (toString (fst p))" "CHR ''-'' \<notin> set (toString (fst q))"
    using toString_digits[of "fst p"] toString_digits[of "fst q"] by auto
  from split_at_first[OF this e] have "toString (fst p) = toString (fst q) \<and> snd p = snd q" .
  then show ?thesis by (simp add: toString_inj prod_eq_iff)
qed

lemma manual_ne_ai: "toString n \<noteq> aiId p"
proof
  assume "toString n = aiId p"
  then have "CHR ''a'' \<in> set (toString n)" by (simp add: aiId_def)
  with toString_digits[of n] show False by auto
qed

lemma handleMouseUp_appends:
  "snd (handleMouseUp mode now ed prev) = prev @ snd (handleMouseUp mode now ed [])"
  by (cases mode; cases "currentRect ed") (simp_all add: handleMouseUp_def Let_def)

lemma files_handleMaskChange:
  "files (handleMaskChange ch st) =
     (if currentFileIndex st < length (files st) \<and> ftype (files st ! currentFileIndex st) = Image
      then (files st)[currentFileIndex st := (files st ! currentFileIndex st)\<lparr>masks :=
              (case ch of Updater fn \<Rightarrow> fn (masks (files st ! currentFileIndex st)) | NewMasks ms \<Rightarrow> ms)\<rparr>]
      else files st)"
  by (simp add: handleMaskChange_def Let_def)

lemma in_update: "f \<in> set (xs[k := v]) \<Longrightarrow> f = v \<or> f \<in> set xs"
  using set_update_subset_insert[of xs k v] by auto

lemma in_handleMaskChange:
  assumes "f \<in> set (files (handleMaskChange ch st))"
  shows "f \<in> set (files st)
     \<or> (\<exists>g\<in>set (files st). masks f = (case ch of Updater fn \<Rightarrow> fn (masks g) | NewMasks ms \<Rightarrow> ms))"
proof (cases "currentFileIndex st < length (files st) \<and> ftype (files st ! currentFileIndex st) = Image")
  case False
  with assms have "f \<in> set (files st)" unfolding files_handleMaskChange by simp
  then show ?thesis by (rule disjI1)
next
  case True
  let ?k = "currentFileIndex st"
  let ?g = "files st ! ?k"
  let ?new = "?g\<lparr>masks := (case ch of Updater fn \<Rightarrow> fn (masks ?g) | NewMasks ms \<Rightarrow> ms)\<rparr>"
  from True assms have "f \<in> set ((files st)[?k := ?new])"
    unfolding files_handleMaskChange by simp
  then have "f = ?new \<or> f \<in> set (files st)" by (rule in_update)
  then show ?thesis
  proof
    assume "f = ?new"
    then have "masks f = (case ch of Updater fn \<Rightarrow> fn (masks ?g) | NewMasks ms \<Rightarrow> ms)" by simp
    moreover have "?g \<in> set (files st)" using True by simp
    ultimately show ?thesis by (intro disjI2 bexI[of _ ?g])
  next
    assume "f \<in> set (files st)"
    then show ?thesis by (rule disjI1)
  qed
qed

lemma appended_ids:
  assumes "distinct (map mask_id ms)" "set (map mask_id ms) \<subseteq> set G"
    and "distinct (G @ map mask_id new)"
  shows "distinct (map mask_id (ms @ new)) \<and> set (map mask_id (ms @ new)) \<subseteq> set (G @ map mask_id new)"
  using assms by auto

lemma kept_ids:
  assumes "distinct (map mask_id ms) \<and> set (map mask_id ms) \<subseteq> set G"
  shows "distinct (map mask_id ms) \<and> set (map mask_id ms) \<subseteq> set (G @ G')"
  using assms by auto

lemma appended_file:
  assumes inv: "\<forall>f\<in>set fs. distinct (map mask_id (masks f)) \<and> set (map mask_id (masks f)) \<subseteq> set G"
    and d: "distinct (G @ map mask_id new)"
    and f: "f \<in> set fs \<or> (\<exists>g\<in>set fs. masks f = masks g @ new)"
  shows "distinct (map mask_id (masks f)) \<and> set (map mask_id (masks f)) \<subseteq> set (G @ map mask_id new)"
  using f
proof
  assume "f \<in> set fs"
  with inv show ?thesis by (intro kept_ids) blast
next
  assume "\<exists>g\<in>set fs. masks f = masks g @ new"
  then obtain g where g: "g \<in> set fs" "masks f = masks g @ new" by blast
  from inv g(1) have "distinct (map mask_id (masks g))" "set (map mask_id (masks g)) \<subseteq> set G"
    by blast+
  from appended_ids[OF this d] g(2) show ?thesis by simp
qed

lemma step_PointerUp:
  assumes inv: "\<forall>f\<in>set (files st). distinct (map mask_id (masks f)) \<and> set (map mask_id (masks f)) \<subseteq> set G"
    and d: "distinct (G @ idsCreated st (PointerUp mode now ed))"
    and f: "f \<in> set (files (applyAction (PointerUp mode now ed) st))"
  shows "distinct (map mask_id (masks f))
       \<and> set (map mask_id (masks f)) \<subseteq> set (G @ idsCreated st (PointerUp mode now ed))"
proof -
  let ?new = "snd (handleMouseUp mode now ed [])"
  from f have "f \<in> set (files (handleMaskChange (Updater (\<lambda>prev. snd (handleMouseUp mode now ed prev))) st))"
    by simp
  from in_handleMaskChange[OF this]
  have "f \<in> set (files st) \<or> (\<exists>g\<in>set (files st). masks f = snd (handleMouseUp mode now ed (masks g)))"
    by simp
  then have a: "f \<in> set (files st) \<or> (\<exists>g\<in>set (files st). masks f = masks g @ ?new)"
  proof
    assume "f \<in> set (files st)"
    then show ?thesis by (rule disjI1)
  next
    assume "\<exists>g\<in>set (files st). masks f = snd (handleMouseUp mode now ed (masks g))"
    then obtain g where g: "g \<in> set (files st)" "masks f = snd (handleMouseUp mode now ed (masks g))"
      by blast
    from g(2) handleMouseUp_appends[of mode now ed "masks g"] have "masks f = masks g @ ?new"
      by (rule trans)
    with g(1) show ?thesis by blast
  qed
  have b: "distinct (G @ map mask_id ?new)" using d unfolding idsCreated.simps .
  from appended_file[OF inv b a] show ?thesis unfolding idsCreated.simps .
qed

lemma step_AutoDetect:
  assumes inv: "\<forall>f\<in>set (files st). distinct (map mask_id (masks f)) \<and> set (map mask_id (masks f)) \<subseteq> set G"
    and d: "distinct (G @ idsCreated st (AutoDetect detection stamp))"
    and f: "f \<in> set (files (applyAction (AutoDetect detection stamp) st))"
  shows "distinct (map mask_id (masks f))
       \<and> set (map mask_id (masks f)) \<subseteq> set (G @ idsCreated st (AutoDetect detection stamp))"
proof (cases "\<exists>results. detection = Detected results \<and> results \<noteq> []
        \<and> currentFileIndex st < length (files st) \<and> ftype (files st ! currentFileIndex st) = Image")
  case False
  then have "handleAutoDetect detection stamp st = st"
    by (cases detection) (auto simp: handleAutoDetect_def)
  with f have "f \<in> set (files st)" by simp
  with inv show ?thesis by (intro kept_ids) blast
next
  case True
  then obtain results where r: "detection = Detected results" "results \<noteq> []"
    "currentFileIndex st < length (files st)" "ftype (files st ! currentFileIndex st) = Image"
    by blast
  let ?new = "newMasks stamp results"
  from r have ap: "handleAutoDetect detection stamp st = handleMaskChange (Updater (\<lambda>prev. prev @ ?new)) st"
    by (auto simp: handleAutoDetect_def)
  from r have ic: "idsCreated st (AutoDetect detection stamp) = map mask_id ?new"
    by simp
  from f ap have "f \<in> set (files (handleMaskChange (Updater (\<lambda>prev. prev @ ?new)) st))"
    by simp
  from in_handleMaskChange[OF this]
  have a: "f \<in> set (files st) \<or> (\<exists>g\<in>set (files st). masks f = masks g @ ?new)"
    by simp
  have b: "distinct (G @ map mask_id ?new)" using d unfolding ic .
  from appended_file[OF inv b a] show ?thesis unfolding ic .
qed

lemma step_ApplyMasksToAll:
  assumes inv: "\<forall>f\<in>set (files st). distinct (map mask_id (masks f)) \<and> set (map mask_id (masks f)) \<subseteq> set G"
    and f: "f \<in> set (files (applyAction (ApplyMasksToAll confirmed) st))"
  shows "distinct (map mask_id (masks f)) \<and> set (map mask_id (masks f)) \<subseteq> set G"
proof (cases "currentFileIndex st < length (files st)")
  case False
  with f have "f \<in> set (files st)" by (simp add: handleApplyMasksToAll_def)
  with inv show ?thesis by blast
next
  case True
  let ?src = "files st ! currentFileIndex st"
  from True have src: "?src \<in> set (files st)" by simp
  have "f \<in> set (files st) \<or> masks f = masks ?src"
  proof (cases "length (masks ?src) = 0 \<or> \<not> confirmed")
    case c: True
    with True f have "f \<in> set (files st)"
      by (auto simp: handleApplyMasksToAll_def Let_def split: if_splits)
    then show ?thesis by (rule disjI1)
  next
    case c: False
    with True f
    have "f \<in> (\<lambda>f. if ftype f = Image then f\<lparr>masks := masks ?src\<rparr> else f) ` set (files st)"
      by (simp add: handleApplyMasksToAll_def Let_def)
    then obtain g where "g \<in> set (files st)" "f = (if ftype g = Image then g\<lparr>masks := masks ?src\<rparr> else g)"
      by blast
    then show ?thesis by (cases "ftype g = Image") simp_all
  qed
  then show ?thesis
  proof
    assume "f \<in> set (files st)"
    with inv show ?thesis by blast
  next
    assume "masks f = masks ?src"
    with inv src show ?thesis by simp
  qed
qed

lemma step_ClearMasks:
  assumes inv: "\<forall>f\<in>set (files st). distinct (map mask_id (masks f)) \<and> set (map mask_id (masks f)) \<subseteq> set G"
    and f: "f \<in> set (files (applyAction ClearMasks st))"
  shows "distinct (map mask_id (masks f)) \<and> set (map mask_id (masks f)) \<subseteq> set G"
proof -
  from f have "f \<in> set (files (handleMaskChange (NewMasks []) st))" by simp
  from in_handleMaskChange[OF this] have "f \<in> set (files st) \<or> masks f = []" by auto
  then show ?thesis
  proof
    assume "f \<in> set (files st)"
    with inv show ?thesis by blast
  next
    assume "masks f = []"
    then show ?thesis by simp
  qed
qed

lemma step_ids:
  assumes inv: "\<forall>f\<in>set (files st). distinct (map mask_id (masks f)) \<and> set (map mask_id (masks f)) \<subseteq> set G"
    and d: "distinct (G @ idsCreated st a)"
  shows "\<forall>f\<in>set (files (applyAction a st)).
           distinct (map mask_id (masks f)) \<and> set (map mask_id (masks f)) \<subseteq> set (G @ idsCreated st a)"
proof (cases a)
  case (SelectFile k)
  with inv show ?thesis by (intro ballI kept_ids) simp
next
  case (PointerUp mode now ed)
  with step_PointerUp[OF inv] d show ?thesis by blast
next
  case (AutoDetect detection stamp)
  with step_AutoDetect[OF inv] d show ?thesis by blast
next
  case (ApplyMasksToAll confirmed)
  with step_ApplyMasksToAll[OF inv] show ?thesis by (intro ballI kept_ids) blast
next
  case ClearMasks
  with step_ClearMasks[OF inv] show ?thesis by (intro ballI kept_ids) blast
qed

lemma run_ids:
  "\<forall>f\<in>set (files st). distinct (map mask_id (masks f)) \<and> set (map mask_id (masks f)) \<subseteq> set G \<Longrightarrow>
   distinct (G @ generated st acts) \<Longrightarrow>
   \<forall>f\<in>set (files (runActions st acts)).
      distinct (map mask_id (masks f)) \<and> set (map mask_id (masks f)) \<subseteq> set (G @ generated st acts)"
proof (induction acts arbitrary: st G)
  case Nil
  then show ?case by (simp add: runActions_def)
next
  case (Cons a acts)
  from Cons.prems(2) have d1: "distinct (G @ idsCreated st a)"
    and d2: "distinct ((G @ idsCreated st a) @ generated (applyAction a st) acts)"
    by auto
  from Cons.IH[OF step_ids[OF Cons.prems(1) d1] d2]
  show ?case by (simp add: runActions_def)
qed

text \<open>
  Two pointer releases that read the same value of \<open>Date.now()\<close> commit two rectangles
  with the same identifier to one collection.
\<close>

theorem same_clock_reading_counterexample:
  "map mask_id (masks (files (runActions twoImages
        [PointerUp DRAW 5 draggingEditor, PointerUp DRAW 5 draggingEditor]) ! 0)) = [''5'', ''5'']
   \<and> \<not> distinct (map mask_id (masks (files (runActions twoImages
        [PointerUp DRAW 5 draggingEditor, PointerUp DRAW 5 draggingEditor]) ! 0)))"
  by (simp add: runActions_def twoImages_def handleProjectStart_def imageFile_def
        handleMaskChange_def handleMouseUp_def draggingEditor_def newMask_def Let_def
        toString.simps digit_def)

text \<open>
  C7, as the code has it. Identifiers are not checked against the collection: a manual
  rectangle gets the decimal text of \<open>Date.now()\<close>, a detected one the text
  \<open>ai-\<close>, \<open>Date.now()\<close>, \<open>-\<close>, \<open>Math.random()\<close>. Starting from a freshly loaded project
  (all collections empty), after every sequence of file selections, pointer releases,
  detections, copies to all images and clearings, the identifiers within each file's
  collection are pairwise distinct provided no identifier was created twice in the
  sequence. A pointer release creates at most the identifier \<open>toString now\<close>, a
  detection the identifiers \<open>aiId (stamp k)\<close>; two manual identifiers are equal only for
  equal clock readings, two detected ones only for equal pairs of clock reading and
  random text, and a manual identifier never equals a detected one.
\<close>

theorem ids_distinct_when_stamps_fresh:
  assumes "\<forall>f\<in>set loadedFiles. masks f = []"
    and "distinct (generated (handleProjectStart description loadedFiles) acts)"
  shows "(\<forall>f\<in>set (files (runActions (handleProjectStart description loadedFiles) acts)).
            distinct (map mask_id (masks f)))
       \<and> (idsCreated st (PointerUp mode now ed) = [] \<or> idsCreated st (PointerUp mode now ed) = [toString now])
       \<and> map mask_id (newMasks stamp results) = map (\<lambda>k. aiId (stamp k)) [0..<length results]
       \<and> (toString a = toString b \<longleftrightarrow> a = b)
       \<and> (aiId p = aiId q \<longleftrightarrow> p = q)
       \<and> toString a \<noteq> aiId p"
proof (intro conjI)
  let ?st0 = "handleProjectStart description loadedFiles"
  from assms(1) have "\<forall>f\<in>set (files ?st0). distinct (map mask_id (masks f)) \<and> set (map mask_id (masks f)) \<subseteq> set []"
    by (simp add: handleProjectStart_def)
  moreover from assms(2) have "distinct ([] @ generated ?st0 acts)" by simp
  ultimately have "\<forall>f\<in>set (files (runActions ?st0 acts)).
      distinct (map mask_id (masks f)) \<and> set (map mask_id (masks f)) \<subseteq> set ([] @ generated ?st0 acts)"
    by (rule run_ids)
  then show "\<forall>f\<in>set (files (runActions ?st0 acts)). distinct (map mask_id (masks f))"
    by blast
next
  show "idsCreated st (PointerUp mode now ed) = [] \<or> idsCreated st (PointerUp mode now ed) = [toString now]"
    using handleMouseUp_cases[of mode now ed "[]"] by (auto simp: newMask_def)
next
  show "map mask_id (newMasks stamp results) = map (\<lambda>k. aiId (stamp k)) [0..<length results]"
    by (simp add: newMasks_def detectedMask_def split: prod.splits)
next
  show "toString a = toString b \<longleftrightarrow> a = b" using toString_inj by blast
next
  show "aiId p = aiId q \<longleftrightarrow> p = q" using aiId_inj by blast
next
  show "toString a \<noteq> aiId p" by (rule manual_ne_ai)
qed

theorem ids_distinct_when_stamps_fresh_witness:
  "generated twoImages
      [PointerUp DRAW 5 draggingEditor, AutoDetect (Detected [titleBlock, titleBlock]) stampAt7,
       ApplyMasksToAll True, SelectFile 1, PointerUp DRAW 6 draggingEditor]
     = [''5'', ''ai-7-0.1'', ''ai-7-0.2'', ''6'']
   \<and> map (\<lambda>f. map mask_id (masks f)) (files (runActions twoImages
      [PointerUp DRAW 5 draggingEditor, AutoDetect (Detected [titleBlock, titleBlock]) stampAt7,
       ApplyMasksToAll True, SelectFile 1, PointerUp DRAW 6 draggingEditor]))
     = [[''5'', ''ai-7-0.1'', ''ai-7-0.2''], [''5'', ''ai-7-0.1'', ''ai-7-0.2'', ''6'']]"
proof -
  let ?fs = "[imageFile ''a.jpg'' ''blob:white'' [], imageFile ''b.jpg'' ''blob:white'' []]"
  let ?acts = "[PointerUp DRAW 5 draggingEditor, AutoDetect (Detected [titleBlock, titleBlock]) stampAt7,
       ApplyMasksToAll True, SelectFile 1, PointerUp DRAW 6 draggingEditor]"
  have e: "generated twoImages ?acts = [''5'', ''ai-7-0.1'', ''ai-7-0.2'', ''6'']
    \<and> map (\<lambda>f. map mask_id (masks f)) (files (runActions twoImages ?acts))
     = [[''5'', ''ai-7-0.1'', ''ai-7-0.2''], [''5'', ''ai-7-0.1'', ''ai-7-0.2'', ''6'']]"
    by (simp add: runActions_def twoImages_def handleProjectStart_def imageFile_def
        handleMaskChange_def handleMouseUp_def handleAutoDetect_def handleApplyMasksToAll_def
        newMasks_def detectedMask_def aiId_def titleBlock_def stampAt7_def
        draggingEditor_def newMask_def Let_def toString.simps digit_def)
  have p1: "\<forall>f\<in>set ?fs. masks f = []" by (simp add: imageFile_def)
  have p2: "distinct (generated (handleProjectStart '''' ?fs) ?acts)"
    using e by (simp add: twoImages_def)
  note t = ids_distinct_when_stamps_fresh[OF p1 p2, where st = twoImages and mode = DRAW
      and now = 5 and ed = draggingEditor and stamp = stampAt7 and results = "[titleBlock]"
      and a = 5 and b = 6 and p = "(7, ''0.1'')" and q = "(7, ''0.2'')"]
  show ?thesis using t by (intro conjI) (rule e[THEN conjunct1], rule e[THEN conjunct2])
qed

section \<open>Properties of copy-to-all\<close>

lemma copy_snd:
  "snd (copyToImages s (f # fs) h) =
     (if ftype f = Image then snd (copyToImages s fs (snd (newArray (readArray h s) h)))
      else snd (copyToImages s fs h))"
  by (simp split: prod.splits)

lemma copy_fst:
  "fst (copyToImages s (f # fs) h) =
     (if ftype f = Image
      then f\<lparr>masks := nextRef h\<rparr> # fst (copyToImages s fs (snd (newArray (readArray h s) h)))
      else f # fst (copyToImages s fs h))"
  by (simp add: newArray_def split: prod.splits)

lemma copy_next:
  "nextRef (snd (copyToImages s fs h)) = nextRef h + length (filter (\<lambda>f. ftype f = Image) fs)"
proof (induction fs arbitrary: h)
  case Nil
  show ?case by simp
next
  case (Cons f fs)
  show ?case unfolding copy_snd by (simp add: Cons.IH newArray_def)
qed

lemma copy_old:
  "r < nextRef h \<Longrightarrow> arrays (snd (copyToImages s fs h)) r = arrays h r"
proof (induction fs arbitrary: h)
  case Nil
  show ?case by simp
next
  case (Cons f fs)
  show ?case
  proof (cases "ftype f = Image")
    case True
    let ?h1 = "snd (newArray (readArray h s) h)"
    from Cons.prems have "r < nextRef ?h1" by (simp add: newArray_def)
    from Cons.IH[OF this] have "arrays (snd (copyToImages s fs ?h1)) r = arrays ?h1 r" .
    also from Cons.prems have "arrays ?h1 r = arrays h r" by (simp add: newArray_def)
    finally show ?thesis using True unfolding copy_snd by simp
  next
    case False
    with Cons.IH[OF Cons.prems] show ?thesis unfolding copy_snd by simp
  qed
qed

lemma copy_length: "length (fst (copyToImages s fs h)) = length fs"
proof (induction fs arbitrary: h)
  case Nil
  show ?case by simp
next
  case (Cons f fs)
  show ?case unfolding copy_fst by (simp add: Cons.IH)
qed

lemma copy_nth:
  "k < length fs \<Longrightarrow>
   fst (copyToImages s fs h) ! k =
     (if ftype (fs ! k) = Image
      then (fs ! k)\<lparr>masks := nextRef h + length (filter (\<lambda>f. ftype f = Image) (take k fs))\<rparr>
      else fs ! k)"
proof (induction fs arbitrary: h k)
  case Nil
  then show ?case by simp
next
  case (Cons f fs)
  show ?case
  proof (cases k)
    case 0
    then show ?thesis unfolding copy_fst by simp
  next
    case (Suc k')
    with Cons.prems have k': "k' < length fs" by simp
    show ?thesis
      unfolding copy_fst using Suc Cons.IH[OF k'] by (simp add: newArray_def)
  qed
qed

lemma copy_content:
  "k < length fs \<Longrightarrow> ftype (fs ! k) = Image \<Longrightarrow> s < nextRef h \<Longrightarrow>
   arrays (snd (copyToImages s fs h)) (nextRef h + length (filter (\<lambda>f. ftype f = Image) (take k fs)))
     = Some (readArray h s)"
proof (induction fs arbitrary: h k)
  case Nil
  then show ?case by simp
next
  case (Cons f fs)
  let ?h1 = "snd (newArray (readArray h s) h)"
  have n1: "nextRef ?h1 = Suc (nextRef h)" by (simp add: newArray_def)
  have r1: "readArray ?h1 s = readArray h s"
    using Cons.prems(3) by (simp add: newArray_def readArray_def)
  show ?case
  proof (cases k)
    case 0
    with Cons.prems have img: "ftype f = Image" by simp
    have "arrays (snd (copyToImages s fs ?h1)) (nextRef h) = arrays ?h1 (nextRef h)"
      by (rule copy_old) (simp add: n1)
    also have "\<dots> = Some (readArray h s)" by (simp add: newArray_def)
    finally show ?thesis using 0 img unfolding copy_snd by simp
  next
    case (Suc k')
    with Cons.prems have k': "k' < length fs" "ftype (fs ! k') = Image" by simp_all
    show ?thesis
    proof (cases "ftype f = Image")
      case True
      from Cons.prems(3) have "s < nextRef ?h1" by (simp add: n1)
      from Cons.IH[OF k' this] r1 n1 True Suc show ?thesis unfolding copy_snd by simp
    next
      case False
      from Cons.IH[OF k' Cons.prems(3)] False Suc show ?thesis unfolding copy_snd by simp
    qed
  qed
qed

lemma count_take_less:
  assumes "i < j" "j \<le> length fs" "P (fs ! i)"
  shows "length (filter P (take i fs)) < length (filter P (take j fs))"
proof -
  from assms(1,2) have "i < length (take j fs)" by simp
  then have "take j fs = take i (take j fs) @ (take j fs ! i) # drop (Suc i) (take j fs)"
    by (rule id_take_nth_drop)
  then have "length (filter P (take j fs))
      = length (filter P (take i (take j fs) @ (take j fs ! i) # drop (Suc i) (take j fs)))"
    by (rule arg_cong)
  also have "\<dots> = length (filter P (take i fs)) + length (filter P ((fs ! i) # drop (Suc i) (take j fs)))"
    using assms(1) by (simp add: min_def)
  finally show ?thesis using assms(3) by simp
qed

lemma apply_refs_result:
  assumes "currentFileIndex_r st < length (files_r st)"
    and "readArray (heap st) (masks (files_r st ! currentFileIndex_r st)) \<noteq> []"
  shows "handleApplyMasksToAll_refs True st =
     Some (st\<lparr>files_r := fst (copyToImages (masks (files_r st ! currentFileIndex_r st)) (files_r st) (heap st)),
               heap := snd (copyToImages (masks (files_r st ! currentFileIndex_r st)) (files_r st) (heap st))\<rparr>)"
  using assms by (simp add: handleApplyMasksToAll_refs_def Let_def split: prod.splits)

lemma files_handleMaskChange_refs:
  "files_r (handleMaskChange_refs ch st) =
     (if currentFileIndex_r st < length (files_r st) \<and> ftype (files_r st ! currentFileIndex_r st) = Image
      then (files_r st)[currentFileIndex_r st := (files_r st ! currentFileIndex_r st)\<lparr>masks := nextRef (heap st)\<rparr>]
      else files_r st)"
  by (simp add: handleMaskChange_refs_def Let_def newArray_def)

lemma arrays_handleMaskChange_refs:
  "r < nextRef (heap st) \<Longrightarrow> arrays (heap (handleMaskChange_refs ch st)) r = arrays (heap st) r"
  by (simp add: handleMaskChange_refs_def Let_def newArray_def)

lemma mask_change_keeps_others:
  assumes "j < length (files_r st)" "j \<noteq> currentFileIndex_r st"
    and "masks (files_r st ! j) < nextRef (heap st)"
  shows "readArray (heap (handleMaskChange_refs ch st)) (masks (files_r (handleMaskChange_refs ch st) ! j))
         = readArray (heap st) (masks (files_r st ! j))"
proof -
  from assms(1,2) have "files_r (handleMaskChange_refs ch st) ! j = files_r st ! j"
    unfolding files_handleMaskChange_refs by simp
  with arrays_handleMaskChange_refs[OF assms(3), of ch] show ?thesis
    by (simp add: readArray_def)
qed

lemma copied_refs:
  assumes k: "currentFileIndex_r st < length (files_r st)"
    and src: "readArray (heap st) (masks (files_r st ! currentFileIndex_r st)) \<noteq> []"
    and wf: "\<forall>f\<in>set (files_r st). masks f < nextRef (heap st)"
  shows "\<exists>st'. handleApplyMasksToAll_refs True st = Some st'
      \<and> length (files_r st') = length (files_r st)
      \<and> currentFileIndex_r st' = currentFileIndex_r st
      \<and> (\<forall>i<length (files_r st). ftype (files_r st' ! i) = ftype (files_r st ! i))
      \<and> (\<forall>i<length (files_r st). masks (files_r st' ! i) < nextRef (heap st'))
      \<and> (\<forall>i<length (files_r st). ftype (files_r st ! i) = Image \<longrightarrow>
            nextRef (heap st) \<le> masks (files_r st' ! i)
            \<and> readArray (heap st') (masks (files_r st' ! i))
                = readArray (heap st) (masks (files_r st ! currentFileIndex_r st)))
      \<and> (\<forall>i<length (files_r st). ftype (files_r st ! i) \<noteq> Image \<longrightarrow>
            files_r st' ! i = files_r st ! i)
      \<and> (\<forall>r<nextRef (heap st). arrays (heap st') r = arrays (heap st) r)
      \<and> (\<forall>i<length (files_r st). \<forall>j<length (files_r st).
            i \<noteq> j \<and> ftype (files_r st ! i) = Image \<and> ftype (files_r st ! j) = Image \<longrightarrow>
            masks (files_r st' ! i) \<noteq> masks (files_r st' ! j))"
proof -
  let ?fs = "files_r st" and ?h = "heap st"
  let ?s = "masks (files_r st ! currentFileIndex_r st)"
  let ?fs' = "fst (copyToImages ?s ?fs ?h)" and ?h' = "snd (copyToImages ?s ?fs ?h)"
  let ?st' = "st\<lparr>files_r := ?fs', heap := ?h'\<rparr>"
  let ?c = "\<lambda>i. length (filter (\<lambda>f. ftype f = Image) (take i ?fs))"
  from k wf have s: "?s < nextRef ?h" by simp
  have res: "handleApplyMasksToAll_refs True st = Some ?st'"
    using k src by (rule apply_refs_result)
  have len: "length ?fs' = length ?fs" by (rule copy_length)
  have nth: "?fs' ! i = (if ftype (?fs ! i) = Image then (?fs ! i)\<lparr>masks := nextRef ?h + ?c i\<rparr> else ?fs ! i)"
    if "i < length ?fs" for i
    using that by (rule copy_nth)
  have next': "nextRef ?h' = nextRef ?h + ?c (length ?fs)"
    by (simp add: copy_next)
  have ty: "ftype (?fs' ! i) = ftype (?fs ! i)" if "i < length ?fs" for i
    using nth[OF that] by simp
  have bound: "masks (?fs' ! i) < nextRef ?h'" if "i < length ?fs" for i
  proof (cases "ftype (?fs ! i) = Image")
    case True
    from count_take_less[of i "length ?fs" ?fs "\<lambda>f. ftype f = Image"] that True
    have "?c i < ?c (length ?fs)" by simp
    with nth[OF that] True next' show ?thesis by simp
  next
    case False
    from that wf have "masks (?fs ! i) < nextRef ?h" by simp
    with nth[OF that] False next' show ?thesis by simp
  qed
  have img: "nextRef ?h \<le> masks (?fs' ! i) \<and> readArray ?h' (masks (?fs' ! i)) = readArray ?h ?s"
    if "i < length ?fs" "ftype (?fs ! i) = Image" for i
  proof -
    from copy_content[OF that s] have "arrays ?h' (nextRef ?h + ?c i) = Some (readArray ?h ?s)" .
    with nth[OF that(1)] that(2) show ?thesis by (simp add: readArray_def)
  qed
  have other: "?fs' ! i = ?fs ! i" if "i < length ?fs" "ftype (?fs ! i) \<noteq> Image" for i
    using nth[OF that(1)] that(2) by simp
  have lt: "masks (?fs' ! i) < masks (?fs' ! j)"
    if "i < j" "j < length ?fs" "ftype (?fs ! i) = Image" "ftype (?fs ! j) = Image" for i j
  proof -
    from that have "?c i < ?c j"
      by (intro count_take_less) simp_all
    moreover from that have "i < length ?fs" by simp
    ultimately show ?thesis using nth[of i] nth[of j] that by simp
  qed
  have dist: "masks (?fs' ! i) \<noteq> masks (?fs' ! j)"
    if "i < length ?fs" "j < length ?fs" "i \<noteq> j" "ftype (?fs ! i) = Image" "ftype (?fs ! j) = Image" for i j
  proof (cases "i < j")
    case True
    from lt[OF True that(2,4,5)] show ?thesis by simp
  next
    case False
    with that(3) have "j < i" by simp
    from lt[OF this that(1,5,4)] show ?thesis by simp
  qed
  show ?thesis
  proof (intro exI[of _ ?st'] conjI allI impI)
    show "handleApplyMasksToAll_refs True st = Some ?st'" by (rule res)
    show "length (files_r ?st') = length ?fs" using len by simp
    show "currentFileIndex_r ?st' = currentFileIndex_r st" by simp
  next
    fix i assume "i < length ?fs"
    then show "ftype (files_r ?st' ! i) = ftype (?fs ! i)" using ty by simp
  next
    fix i assume "i < length ?fs"
    then show "masks (files_r ?st' ! i) < nextRef (heap ?st')" using bound by simp
  next
    fix i assume "i < length ?fs" "ftype (?fs ! i) = Image"
    then show "nextRef ?h \<le> masks (files_r ?st' ! i)" using img by simp
  next
    fix i assume "i < length ?fs" "ftype (?fs ! i) = Image"
    then show "readArray (heap ?st') (masks (files_r ?st' ! i)) = readArray ?h ?s" using img by simp
  next
    fix i assume "i < length ?fs" "ftype (?fs ! i) \<noteq> Image"
    then show "files_r ?st' ! i = ?fs ! i" using other by simp
  next
    fix r assume "r < nextRef ?h"
    then show "arrays (heap ?st') r = arrays ?h r" by (simp add: copy_old)
  next
    fix i j assume "i < length ?fs" "j < length ?fs"
      "i \<noteq> j \<and> ftype (?fs ! i) = Image \<and> ftype (?fs ! j) = Image"
    then show "masks (files_r ?st' ! i) \<noteq> masks (files_r ?st' ! j)" using dist by simp
  qed
qed

text \<open>
  The store model refines the value model: read through the store, both operations do
  what handleApplyMasksToAll and handleMaskChange do on lists.
\<close>

lemma apply_refs_refines:
  assumes "currentFileIndex_r st < length (files_r st)"
    and "readArray (heap st) (masks (files_r st ! currentFileIndex_r st)) \<noteq> []"
    and "\<forall>f\<in>set (files_r st). masks f < nextRef (heap st)"
  shows "\<exists>st'. handleApplyMasksToAll_refs True st = Some st'
      \<and> handleApplyMasksToAll True
            \<lparr>projectDesc = d, files = map (contents (heap st)) (files_r st),
             currentFileIndex = currentFileIndex_r st, exportTrigger = t\<rparr>
          = Some \<lparr>projectDesc = d, files = map (contents (heap st')) (files_r st'),
                  currentFileIndex = currentFileIndex_r st', exportTrigger = t\<rparr>"
proof -
  let ?k = "currentFileIndex_r st"
  let ?src = "readArray (heap st) (masks (files_r st ! ?k))"
  from copied_refs[OF assms] obtain st' where
    r: "handleApplyMasksToAll_refs True st = Some st'"
    and len: "length (files_r st') = length (files_r st)"
    and cur: "currentFileIndex_r st' = ?k"
    and ty: "\<forall>i<length (files_r st). ftype (files_r st' ! i) = ftype (files_r st ! i)"
    and img: "\<forall>i<length (files_r st). ftype (files_r st ! i) = Image \<longrightarrow>
            nextRef (heap st) \<le> masks (files_r st' ! i)
            \<and> readArray (heap st') (masks (files_r st' ! i)) = ?src"
    and other: "\<forall>i<length (files_r st). ftype (files_r st ! i) \<noteq> Image \<longrightarrow>
            files_r st' ! i = files_r st ! i"
    and old: "\<forall>r<nextRef (heap st). arrays (heap st') r = arrays (heap st) r"
    by blast
  have same: "name (files_r st' ! i) = name (files_r st ! i) \<and> blob (files_r st' ! i) = blob (files_r st ! i)
      \<and> url (files_r st' ! i) = url (files_r st ! i)" if "i < length (files_r st)" for i
  proof (cases "ftype (files_r st ! i) = Image")
    case True
    from apply_refs_result[OF assms(1,2)] r
    have "st' = st\<lparr>files_r := fst (copyToImages (masks (files_r st ! ?k)) (files_r st) (heap st)),
               heap := snd (copyToImages (masks (files_r st ! ?k)) (files_r st) (heap st))\<rparr>"
      by simp
    then have "files_r st' ! i = fst (copyToImages (masks (files_r st ! ?k)) (files_r st) (heap st)) ! i"
      by simp
    with copy_nth[OF that, of "masks (files_r st ! ?k)" "heap st"] True show ?thesis by simp
  next
    case False
    with other that show ?thesis by simp
  qed
  have "map (contents (heap st')) (files_r st')
      = map (\<lambda>f. if ftype f = Image then f\<lparr>masks := ?src\<rparr> else f) (map (contents (heap st)) (files_r st))"
  proof (rule nth_equalityI)
    show "length (map (contents (heap st')) (files_r st'))
        = length (map (\<lambda>f. if ftype f = Image then f\<lparr>masks := ?src\<rparr> else f) (map (contents (heap st)) (files_r st)))"
      using len by simp
  next
    fix i assume "i < length (map (contents (heap st')) (files_r st'))"
    with len have i: "i < length (files_r st)" by simp
    show "map (contents (heap st')) (files_r st') ! i
        = map (\<lambda>f. if ftype f = Image then f\<lparr>masks := ?src\<rparr> else f) (map (contents (heap st)) (files_r st)) ! i"
    proof (cases "ftype (files_r st ! i) = Image")
      case True
      with i len ty img same[OF i] show ?thesis by (simp add: contents_def)
    next
      case False
      from i assms(3) have "masks (files_r st ! i) < nextRef (heap st)" by simp
      with old have "readArray (heap st') (masks (files_r st ! i)) = readArray (heap st) (masks (files_r st ! i))"
        by (simp add: readArray_def)
      with False i len other show ?thesis by (simp add: contents_def)
    qed
  qed
  moreover from assms(1,2) have "handleApplyMasksToAll True
            \<lparr>projectDesc = d, files = map (contents (heap st)) (files_r st),
             currentFileIndex = ?k, exportTrigger = t\<rparr>
     = Some \<lparr>projectDesc = d,
             files = map (\<lambda>f. if ftype f = Image then f\<lparr>masks := ?src\<rparr> else f) (map (contents (heap st)) (files_r st)),
             currentFileIndex = ?k, exportTrigger = t\<rparr>"
    by (simp add: handleApplyMasksToAll_def contents_def)
  ultimately show ?thesis using r cur by simp
qed

lemma mask_change_refs_refines:
  assumes "\<forall>f\<in>set (files_r st). masks f < nextRef (heap st)"
  shows "handleMaskChange ch
            \<lparr>projectDesc = d, files = map (contents (heap st)) (files_r st),
             currentFileIndex = currentFileIndex_r st, exportTrigger = t\<rparr>
         = \<lparr>projectDesc = d,
            files = map (contents (heap (handleMaskChange_refs ch st))) (files_r (handleMaskChange_refs ch st)),
            currentFileIndex = currentFileIndex_r (handleMaskChange_refs ch st), exportTrigger = t\<rparr>"
proof (cases "currentFileIndex_r st < length (files_r st) \<and> ftype (files_r st ! currentFileIndex_r st) = Image")
  case False
  then show ?thesis
    by (auto simp: handleMaskChange_def handleMaskChange_refs_def Let_def contents_def)
next
  case True
  let ?k = "currentFileIndex_r st"
  let ?new = "case ch of Updater fn \<Rightarrow> fn (readArray (heap st) (masks (files_r st ! ?k))) | NewMasks ms \<Rightarrow> ms"
  let ?st2 = "handleMaskChange_refs ch st"
  have f2: "files_r ?st2 = (files_r st)[?k := (files_r st ! ?k)\<lparr>masks := nextRef (heap st)\<rparr>]"
    using True unfolding files_handleMaskChange_refs by simp
  have h2: "arrays (heap ?st2) = (arrays (heap st))(nextRef (heap st) \<mapsto> ?new)"
    using True by (simp add: handleMaskChange_refs_def Let_def newArray_def)
  have c2: "currentFileIndex_r ?st2 = ?k"
    by (simp add: handleMaskChange_refs_def Let_def newArray_def split: prod.splits)
  have "map (contents (heap ?st2)) (files_r ?st2)
      = (map (contents (heap st)) (files_r st))[?k := (contents (heap st) (files_r st ! ?k))\<lparr>masks := ?new\<rparr>]"
  proof (rule nth_equalityI)
    show "length (map (contents (heap ?st2)) (files_r ?st2))
        = length ((map (contents (heap st)) (files_r st))[?k := (contents (heap st) (files_r st ! ?k))\<lparr>masks := ?new\<rparr>])"
      by (simp add: f2)
  next
    fix i assume "i < length (map (contents (heap ?st2)) (files_r ?st2))"
    then have i: "i < length (files_r st)" by (simp add: f2)
    show "map (contents (heap ?st2)) (files_r ?st2) ! i
        = (map (contents (heap st)) (files_r st))[?k := (contents (heap st) (files_r st ! ?k))\<lparr>masks := ?new\<rparr>] ! i"
    proof (cases "i = ?k")
      case True
      with i show ?thesis by (simp add: f2 h2 contents_def readArray_def)
    next
      case False
      from i assms have "masks (files_r st ! i) < nextRef (heap st)" by simp
      then have "masks (files_r st ! i) \<noteq> nextRef (heap st)" by simp
      with False i show ?thesis by (simp add: f2 h2 contents_def readArray_def)
    qed
  qed
  moreover have "handleMaskChange ch
            \<lparr>projectDesc = d, files = map (contents (heap st)) (files_r st),
             currentFileIndex = ?k, exportTrigger = t\<rparr>
     = \<lparr>projectDesc = d,
        files = (map (contents (heap st)) (files_r st))[?k := (contents (heap st) (files_r st ! ?k))\<lparr>masks := ?new\<rparr>],
        currentFileIndex = ?k, exportTrigger = t\<rparr>"
    using True by (cases ch) (simp_all add: handleMaskChange_def Let_def contents_def)
  ultimately show ?thesis using c2 by simp
qed

text \<open>
  C6. After copy-to-all from a source subject whose collection is not empty, every image
  subject's collection has the contents of the source's, and the collections are
  independent: each image subject holds an array of its own, different from every other
  image subject's and from every array that existed before, so that appending to,
  replacing or clearing the collection of one subject (handleMaskChange with any
  argument), and even writing into its array in place, leaves the collection of every
  other subject as it was.
\<close>

theorem copy_to_all_independent:
  assumes "currentFileIndex_r st < length (files_r st)"
    and "readArray (heap st) (masks (files_r st ! currentFileIndex_r st)) \<noteq> []"
    and "\<forall>f\<in>set (files_r st). masks f < nextRef (heap st)"
  shows "\<exists>st'. handleApplyMasksToAll_refs True st = Some st'
      \<and> (\<forall>i<length (files_r st). ftype (files_r st ! i) = Image \<longrightarrow>
            ftype (files_r st' ! i) = Image
            \<and> readArray (heap st') (masks (files_r st' ! i))
                = readArray (heap st) (masks (files_r st ! currentFileIndex_r st)))
      \<and> (\<forall>i<length (files_r st). \<forall>j<length (files_r st).
            i \<noteq> j \<and> ftype (files_r st ! i) = Image \<and> ftype (files_r st ! j) = Image \<longrightarrow>
            masks (files_r st' ! i) \<noteq> masks (files_r st' ! j))
      \<and> (\<forall>i<length (files_r st). \<forall>g\<in>set (files_r st).
            ftype (files_r st ! i) = Image \<longrightarrow> masks (files_r st' ! i) \<noteq> masks g)
      \<and> (\<forall>i<length (files_r st). \<forall>j<length (files_r st). \<forall>ch. i \<noteq> j \<longrightarrow>
            readArray (heap (handleMaskChange_refs ch (st'\<lparr>currentFileIndex_r := i\<rparr>)))
                (masks (files_r (handleMaskChange_refs ch (st'\<lparr>currentFileIndex_r := i\<rparr>)) ! j))
              = readArray (heap st') (masks (files_r st' ! j)))
      \<and> (\<forall>i<length (files_r st). \<forall>j<length (files_r st). \<forall>xs.
            i \<noteq> j \<and> ftype (files_r st ! i) = Image \<and> ftype (files_r st ! j) = Image \<longrightarrow>
            readArray ((heap st')\<lparr>arrays := (arrays (heap st'))(masks (files_r st' ! i) \<mapsto> xs)\<rparr>)
                (masks (files_r st' ! j))
              = readArray (heap st') (masks (files_r st' ! j)))"
proof -
  from copied_refs[OF assms] obtain st' where
    r: "handleApplyMasksToAll_refs True st = Some st'"
    and len: "length (files_r st') = length (files_r st)"
    and ty: "\<forall>i<length (files_r st). ftype (files_r st' ! i) = ftype (files_r st ! i)"
    and bound: "\<forall>i<length (files_r st). masks (files_r st' ! i) < nextRef (heap st')"
    and img: "\<forall>i<length (files_r st). ftype (files_r st ! i) = Image \<longrightarrow>
            nextRef (heap st) \<le> masks (files_r st' ! i)
            \<and> readArray (heap st') (masks (files_r st' ! i))
                = readArray (heap st) (masks (files_r st ! currentFileIndex_r st))"
    and dist: "\<forall>i<length (files_r st). \<forall>j<length (files_r st).
            i \<noteq> j \<and> ftype (files_r st ! i) = Image \<and> ftype (files_r st ! j) = Image \<longrightarrow>
            masks (files_r st' ! i) \<noteq> masks (files_r st' ! j)"
    by blast
  have a: "\<forall>i<length (files_r st). ftype (files_r st ! i) = Image \<longrightarrow>
            ftype (files_r st' ! i) = Image
            \<and> readArray (heap st') (masks (files_r st' ! i))
                = readArray (heap st) (masks (files_r st ! currentFileIndex_r st))"
    using ty img by simp
  have c: "\<forall>i<length (files_r st). \<forall>g\<in>set (files_r st).
            ftype (files_r st ! i) = Image \<longrightarrow> masks (files_r st' ! i) \<noteq> masks g"
  proof (intro allI impI ballI)
    fix i g assume "i < length (files_r st)" "g \<in> set (files_r st)" "ftype (files_r st ! i) = Image"
    with img assms(3) have "nextRef (heap st) \<le> masks (files_r st' ! i)" "masks g < nextRef (heap st)"
      by simp_all
    then show "masks (files_r st' ! i) \<noteq> masks g" by simp
  qed
  have d: "\<forall>i<length (files_r st). \<forall>j<length (files_r st). \<forall>ch. i \<noteq> j \<longrightarrow>
            readArray (heap (handleMaskChange_refs ch (st'\<lparr>currentFileIndex_r := i\<rparr>)))
                (masks (files_r (handleMaskChange_refs ch (st'\<lparr>currentFileIndex_r := i\<rparr>)) ! j))
              = readArray (heap st') (masks (files_r st' ! j))"
  proof (intro allI impI)
    fix i j ch assume ij: "i < length (files_r st)" "j < length (files_r st)" "i \<noteq> j"
    let ?st = "st'\<lparr>currentFileIndex_r := i\<rparr>"
    from ij len bound have "j < length (files_r ?st)" "j \<noteq> currentFileIndex_r ?st"
      "masks (files_r ?st ! j) < nextRef (heap ?st)"
      by simp_all
    from mask_change_keeps_others[OF this, of ch]
    show "readArray (heap (handleMaskChange_refs ch ?st)) (masks (files_r (handleMaskChange_refs ch ?st) ! j))
              = readArray (heap st') (masks (files_r st' ! j))"
      by simp
  qed
  have e: "\<forall>i<length (files_r st). \<forall>j<length (files_r st). \<forall>xs.
            i \<noteq> j \<and> ftype (files_r st ! i) = Image \<and> ftype (files_r st ! j) = Image \<longrightarrow>
            readArray ((heap st')\<lparr>arrays := (arrays (heap st'))(masks (files_r st' ! i) \<mapsto> xs)\<rparr>)
                (masks (files_r st' ! j))
              = readArray (heap st') (masks (files_r st' ! j))"
  proof (intro allI impI)
    fix i j xs assume ij: "i < length (files_r st)" "j < length (files_r st)"
      "i \<noteq> j \<and> ftype (files_r st ! i) = Image \<and> ftype (files_r st ! j) = Image"
    with dist have "masks (files_r st' ! i) \<noteq> masks (files_r st' ! j)" by simp
    then show "readArray ((heap st')\<lparr>arrays := (arrays (heap st'))(masks (files_r st' ! i) \<mapsto> xs)\<rparr>)
                (masks (files_r st' ! j))
              = readArray (heap st') (masks (files_r st' ! j))"
      by (simp add: readArray_def)
  qed
  from r a dist c d e show ?thesis by blast
qed

theorem copy_to_all_independent_witness:
  "(case handleApplyMasksToAll_refs True storeProject of
      None \<Rightarrow> False
    | Some st' \<Rightarrow>
        map masks (files_r st') = [3, 4, 2]
        \<and> map (\<lambda>f. readArray (heap st') (masks f)) (files_r st') = [[rightHalfMask], [rightHalfMask], []]
        \<and> map (\<lambda>f. readArray (heap (handleMaskChange_refs (NewMasks []) st')) (masks f))
               (files_r (handleMaskChange_refs (NewMasks []) st'))
            = [[], [rightHalfMask], []]
        \<and> map (\<lambda>f. readArray (heap (handleMaskChange_refs (Updater (\<lambda>prev. prev @ [fullMask])) st')) (masks f))
               (files_r (handleMaskChange_refs (Updater (\<lambda>prev. prev @ [fullMask])) st'))
            = [[rightHalfMask, fullMask], [rightHalfMask], []])"
proof -
  have p1: "currentFileIndex_r storeProject < length (files_r storeProject)"
    by (simp add: storeProject_def)
  have p2: "readArray (heap storeProject) (masks (files_r storeProject ! currentFileIndex_r storeProject)) \<noteq> []"
    by (simp add: storeProject_def readArray_def)
  have p3: "\<forall>f\<in>set (files_r storeProject). masks f < nextRef (heap storeProject)"
    by (simp add: storeProject_def tableFile_def)
  note t = copy_to_all_independent[OF p1 p2 p3]
  have e: "handleApplyMasksToAll_refs True storeProject =
      Some \<lparr>files_r = [\<lparr>name = ''a.jpg'', blob = FileBlob ''a.jpg'', url = ''blob:a'', ftype = Image, masks = 3\<rparr>,
                 \<lparr>name = ''b.jpg'', blob = FileBlob ''b.jpg'', url = ''blob:b'', ftype = Image, masks = 4\<rparr>,
                 tableFile ''bom.csv'' 2],
      currentFileIndex_r = 0,
      heap = \<lparr>arrays = [0 \<mapsto> [rightHalfMask], 1 \<mapsto> [], 2 \<mapsto> [], 3 \<mapsto> [rightHalfMask], 4 \<mapsto> [rightHalfMask]],
               nextRef = 5\<rparr>\<rparr>"
    by (simp add: handleApplyMasksToAll_refs_def storeProject_def tableFile_def readArray_def
          newArray_def Let_def)
  show ?thesis using t unfolding e
    by (simp add: handleMaskChange_refs_def tableFile_def readArray_def newArray_def Let_def)
qed

end
